theory Spec2Isabelle
  imports Complex_Main "HOL-Library.Log_Nat"
begin

section \<open>Errors\<close>

text \<open>
  Every \<open>raise ValueError(...)\<close> of \<open>generate_codes.py\<close> is one constructor of
  \<open>message\<close>, named after the text of its message:
  \<^item> \<open>NotIntegers\<close>: "Codes_count and codes_length must be integers." (lines 31, 33)
  \<^item> \<open>NotPositive\<close>: "Codes_count and codes_length must be greater than 0." (lines 35, 37)
  \<^item> \<open>InvalidCase\<close>: "Invalid case: ..." (line 56)
  \<^item> \<open>CustomDuplicates\<close>: "Custom character set contains duplicate characters." (line 70)
  \<^item> \<open>CustomInvalid\<close>: "Invalid characters in custom character set: ..." (line 78)
  \<^item> \<open>CustomEmpty\<close>: "Custom character set is empty." (line 83)
  \<^item> \<open>InvalidCharset\<close>: "Invalid charset: ..." (line 85)
  \<^item> \<open>OmitInvalid\<close>: "Invalid characters in omit character set: ..." (line 90)
  \<^item> \<open>AddInvalid\<close>: "Invalid characters in add character set: ..." (line 101)
  \<^item> \<open>CharsetEmpty\<close>: "Used character set is empty." (line 108)
  \<^item> \<open>MaxlinesInvalid\<close>: "Maxlines must be an integer greater than 0." (line 127)
  \<^item> \<open>CannotGenerate\<close>: "Cannot generate ... codes of length ... from a character set of
    length ..." (line 137)
  \<^item> \<open>CouldNotWrite\<close>: "Could not write into the file." (line 221)
  \<^item> \<open>IntConversion\<close>: a \<open>ValueError\<close> raised by the built-in \<open>int\<close> itself.
  \<^item> \<open>EncodeError\<close>: a \<open>UnicodeEncodeError\<close>, which is a subclass of \<open>ValueError\<close>
    and is caught as one; the text layer of a file or of the standard output raises it
    for a character that the encoding does not have.

  The other constructors of \<open>error\<close> are the exceptions that the interpreter and the
  library raise by themselves in the expressions of the source: \<open>int(None)\<close>, a division
  by zero, a quotient, a float or a \<open>timedelta\<close> too large, \<open>random.choice\<close> on an
  empty sequence, \<open>os.makedirs\<close> that cannot create the directory (\<open>OSError\<close>),
  \<open>open\<close> with an encoding that does not exist (\<open>LookupError\<close>), \<open>input\<close> at the end
  of the standard input (\<open>EOFError\<close>). None of them is a \<open>ValueError\<close>.
\<close>

datatype message =
    NotIntegers | NotPositive | InvalidCase | CustomDuplicates | CustomInvalid | CustomEmpty
  | InvalidCharset | OmitInvalid | AddInvalid | CharsetEmpty | MaxlinesInvalid
  | CannotGenerate | CouldNotWrite | IntConversion | EncodeError

datatype error =
    ValueError message | TypeError | ZeroDivisionError | OverflowError | IndexError
  | OSError | LookupError | EOFError

text \<open>
  The taxonomy of the specification: a configuration error is a \<open>ValueError\<close> raised while
  the generator is configured (constructor, \<open>build_character_set\<close>, \<open>build_file\<close>); the
  capacity error is the \<open>ValueError\<close> of line 137.
\<close>

fun is_configuration_error :: "error \<Rightarrow> bool" where
  "is_configuration_error (ValueError m) =
     (m \<in> {NotIntegers, NotPositive, InvalidCase, CustomDuplicates, CustomInvalid, CustomEmpty,
            InvalidCharset, OmitInvalid, AddInvalid, CharsetEmpty, MaxlinesInvalid})"
| "is_configuration_error _ = False"

fun is_capacity_error :: "error \<Rightarrow> bool" where
  "is_capacity_error (ValueError m) = (m = CannotGenerate)"
| "is_capacity_error _ = False"

section \<open>The constants of Python's \<open>string\<close> module\<close>

text \<open>
  A Python \<open>str\<close> is modelled as a \<open>string\<close>, a \<open>char\<close> standing for a code point below
  256. Every alphabet that \<open>build_character_set\<close> accepts lies in this range, since
  \<open>string.printable\<close> is a part of ASCII.
\<close>

definition ascii_lowercase :: string where
  "ascii_lowercase = ''abcdefghijklmnopqrstuvwxyz''"

definition ascii_uppercase :: string where
  "ascii_uppercase = ''ABCDEFGHIJKLMNOPQRSTUVWXYZ''"

definition ascii_letters :: string where
  "ascii_letters = ascii_lowercase @ ascii_uppercase"

definition digits :: string where
  "digits = ''0123456789''"

text \<open>\<open>string.punctuation\<close>: the 32 ASCII punctuation characters, in the order of their codes.\<close>

definition punctuation :: string where
  "punctuation = map char_of ([33..<48] @ [58..<65] @ [91..<97] @ [123..<127] :: nat list)"

text \<open>\<open>string.whitespace\<close> is \<open>' \t\n\r\x0b\x0c'\<close>.\<close>

definition whitespace :: string where
  "whitespace = [CHR 0x20, CHR 0x09, CHR 0x0A, CHR 0x0D, CHR 0x0B, CHR 0x0C]"

definition printable :: string where
  "printable = digits @ ascii_letters @ punctuation @ whitespace"

section \<open>The generator object\<close>

text \<open>
  The attributes of \<open>CodeGenerator\<close> as \<open>__init__\<close> creates them. \<open>codes_set\<close> is a
  Python \<open>set\<close> of strings; \<open>prefix\<close> and \<open>suffix\<close> are \<open>None\<close> or a string.
\<close>

record generator =
  codes_count :: int
  codes_length :: int
  charset :: string
  codes_set :: "string set"
  encoding :: string
  prefix :: "string option"
  suffix :: "string option"
  filename_base :: string
  filename_ext :: string
  maxlines :: int
  save_directory :: string

definition RECOMMENDED_CHARS :: string where
  "RECOMMENDED_CHARS = ''2345679ACDEFGHJKLMNPRSTUVXYZ''"

section \<open>\<open>build_character_set\<close> (lines 48 to 108)\<close>

text \<open>
  \<open>invalid_chars s\<close> is the list comprehension
  \<open>[char for char in s if char not in string.printable]\<close> of lines 74, 88 and 99.
\<close>

definition invalid_chars :: "string \<Rightarrow> string" where
  "invalid_chars s = filter (\<lambda>char. char \<notin> set printable) s"

text \<open>
  Lines 49 to 56: the letters selected by \<open>case\<close>. This is the first statement of
  \<open>build_character_set\<close>, run whatever the charset is.
\<close>

definition select_alpha :: "string \<Rightarrow> error + string" where
  "select_alpha case_arg =
     (if case_arg = ''lower'' then Inr ascii_lowercase
      else if case_arg = ''mixed'' then Inr ascii_letters
      else if case_arg = ''upper'' then Inr ascii_uppercase
      else Inl (ValueError InvalidCase))"

text \<open>
  Lines 58 to 85: the base character set. \<open>custom_chars\<close> is \<open>None\<close> or a string, and
  \<open>if custom_chars:\<close> is false for both \<open>None\<close> and the empty string.
  \<open>len(custom_chars) != len(set(custom_chars))\<close> compares the length of the string with the
  number of its distinct characters.
\<close>

definition select_base :: "string \<Rightarrow> string \<Rightarrow> string option \<Rightarrow> error + string" where
  "select_base charset_name alphaSet custom_chars =
     (if charset_name = ''recommended'' then Inr RECOMMENDED_CHARS
      else if charset_name = ''numeric'' then Inr digits
      else if charset_name = ''alpha'' then Inr alphaSet
      else if charset_name = ''alphanumeric'' then Inr (digits @ alphaSet)
      else if charset_name = ''custom'' then
        (case custom_chars of
           None \<Rightarrow> Inl (ValueError CustomEmpty)
         | Some cs \<Rightarrow>
             if cs = [] then Inl (ValueError CustomEmpty)
             else if length cs \<noteq> card (set cs) then Inl (ValueError CustomDuplicates)
             else if invalid_chars cs \<noteq> [] then Inl (ValueError CustomInvalid)
             else Inr cs)
      else Inl (ValueError InvalidCharset))"

text \<open>The characters of an optional string argument: none when it is \<open>None\<close>.\<close>

definition chars_of :: "string option \<Rightarrow> string" where
  "chars_of arg = (case arg of None \<Rightarrow> [] | Some s \<Rightarrow> s)"

text \<open>Lines 87 to 96: \<open>omit\<close> is \<open>None\<close> or a string.\<close>

definition apply_omit :: "string option \<Rightarrow> string \<Rightarrow> error + string" where
  "apply_omit omit cs =
     (case omit of
        None \<Rightarrow> Inr cs
      | Some om \<Rightarrow>
          if invalid_chars om \<noteq> [] then Inl (ValueError OmitInvalid)
          else Inr (filter (\<lambda>char. char \<notin> set om) cs))"

text \<open>Lines 98 to 105: \<open>add\<close> is \<open>None\<close> or a string.\<close>

definition apply_add :: "string option \<Rightarrow> string \<Rightarrow> error + string" where
  "apply_add add cs =
     (case add of
        None \<Rightarrow> Inr cs
      | Some ad \<Rightarrow>
          if invalid_chars ad \<noteq> [] then Inl (ValueError AddInvalid)
          else Inr (cs @ ad))"

text \<open>
  The whole method. An exception leaves the method at once, so the steps are chained in
  the order of the source; the result is the error raised, or the generator with its
  \<open>charset\<close> attribute set. (The caller of the source abandons the object when the method
  raises, so the value of \<open>self.charset\<close> at a raise is not part of the result.)
\<close>

definition build_character_set ::
  "generator \<Rightarrow> string \<Rightarrow> string \<Rightarrow> string option \<Rightarrow> string option \<Rightarrow> string option
     \<Rightarrow> error + generator" where
  "build_character_set self charset_name case_arg omit add custom_chars =
     (case select_alpha case_arg of
        Inl e \<Rightarrow> Inl e
      | Inr alphaSet \<Rightarrow>
          (case select_base charset_name alphaSet custom_chars of
             Inl e \<Rightarrow> Inl e
           | Inr cs0 \<Rightarrow>
               (case apply_omit omit cs0 of
                  Inl e \<Rightarrow> Inl e
                | Inr cs1 \<Rightarrow>
                    (case apply_add add cs1 of
                       Inl e \<Rightarrow> Inl e
                     | Inr cs2 \<Rightarrow>
                         if cs2 = [] then Inl (ValueError CharsetEmpty)
                         else Inr (self\<lparr>charset := cs2\<rparr>)))))"

section \<open>The constructor (lines 14 to 46)\<close>

text \<open>
  The arguments of the constructor are not typed: the command line passes strings, a
  caller of the class may pass anything. \<open>pyval\<close> holds the values that matter to
  \<open>int(...)\<close>: an integer, a float (a finite one is the rational it stands for), a string
  and \<open>None\<close>.
\<close>

datatype pyval = PyInt int | PyFloat rat | PyInf | PyNaN | PyStr string | PyNone

text \<open>
  The white space that \<open>int(...)\<close> removes at both ends of a string, among the code
  points below 256: \<open>\t \n \x0b \x0c \r\<close> and the space, which are the white space of
  ASCII, and \<open>\x85\<close> and \<open>\xa0\<close>, which \<open>int\<close> turns into spaces first. The
  separators \<open>\x1c\<close> to \<open>\x1f\<close> are no white space for \<open>int\<close>.
\<close>

definition int_space :: "char \<Rightarrow> bool" where
  "int_space c = (of_char c \<in> ({9, 10, 11, 12, 13, 32, 133, 160} :: nat set))"

definition isdecimal :: "char \<Rightarrow> bool" where
  "isdecimal c = (48 \<le> (of_char c :: nat) \<and> (of_char c :: nat) \<le> 57)"

definition int_strip :: "string \<Rightarrow> string" where
  "int_strip s = rev (dropWhile int_space (rev (dropWhile int_space s)))"

text \<open>
  The digits of a decimal literal as \<open>int\<close> reads them: one underscore is allowed
  between two digits.
\<close>

fun parse_digits :: "string \<Rightarrow> nat \<Rightarrow> nat option" where
  "parse_digits [] acc = Some acc"
| "parse_digits (c # cs) acc =
     (if isdecimal c then parse_digits cs (10 * acc + (of_char c - 48))
      else if c = CHR ''_'' \<and> cs \<noteq> [] \<and> isdecimal (hd cs) then parse_digits cs acc
      else None)"

text \<open>
  \<open>int(s)\<close> of a string: an optional sign and the digits, between white space. A literal
  of more than 4300 digits raises \<open>ValueError\<close> (the limit
  \<open>sys.int_info.default_max_str_digits\<close> of the interpreter since Python 3.11).
\<close>

definition max_str_digits :: nat where
  "max_str_digits = 4300"

definition int_of_str :: "string \<Rightarrow> error + int" where
  "int_of_str s =
     (let t = int_strip s;
          neg = (t \<noteq> [] \<and> hd t = CHR ''-'');
          body = (if t \<noteq> [] \<and> (hd t = CHR ''-'' \<or> hd t = CHR ''+'') then tl t else t)
      in if body = [] \<or> \<not> isdecimal (hd body) then Inl (ValueError IntConversion)
         else (case parse_digits body 0 of
                 None \<Rightarrow> Inl (ValueError IntConversion)
               | Some n \<Rightarrow>
                   if max_str_digits < length (filter isdecimal body)
                   then Inl (ValueError IntConversion)
                   else Inr (if neg then - int n else int n)))"

text \<open>
  The built-in \<open>int(x)\<close>: an integer is returned as it is, a float is truncated towards
  zero (an infinity raises \<open>OverflowError\<close>, a NaN \<open>ValueError\<close>), a string is parsed,
  \<open>None\<close> raises \<open>TypeError\<close>.
\<close>

fun py_int :: "pyval \<Rightarrow> error + int" where
  "py_int (PyInt n) = Inr n"
| "py_int (PyFloat q) = Inr (if q < 0 then \<lceil>q\<rceil> else \<lfloor>q\<rfloor>)"
| "py_int PyInf = Inl OverflowError"
| "py_int PyNaN = Inl (ValueError IntConversion)"
| "py_int (PyStr s) = int_of_str s"
| "py_int PyNone = Inl TypeError"

text \<open>
  Lines 27 to 33: both conversions are inside the \<open>try\<close>; a \<open>ValueError\<close> or a
  \<open>TypeError\<close> becomes the \<open>ValueError\<close> of the constructor, any other exception
  leaves the constructor as it is.
\<close>

definition int_or_raise :: "pyval \<Rightarrow> error + int" where
  "int_or_raise v =
     (case py_int v of
        Inl (ValueError m) \<Rightarrow> Inl (ValueError NotIntegers)
      | Inl TypeError \<Rightarrow> Inl (ValueError NotIntegers)
      | Inl e \<Rightarrow> Inl e
      | Inr n \<Rightarrow> Inr n)"

text \<open>Lines 28, 29 and 38 to 46: the attributes of the new object.\<close>

definition new_generator :: "int \<Rightarrow> int \<Rightarrow> string option \<Rightarrow> string option \<Rightarrow> generator" where
  "new_generator c l pre suf =
     \<lparr>codes_count = c, codes_length = l, charset = [], codes_set = {},
      encoding = [], prefix = pre, suffix = suf, filename_base = [],
      filename_ext = [], maxlines = 0, save_directory = []\<rparr>"

definition init :: "pyval \<Rightarrow> pyval \<Rightarrow> string option \<Rightarrow> string option \<Rightarrow> error + generator" where
  "init count len pre suf =
     (case int_or_raise count of
        Inl e \<Rightarrow> Inl e
      | Inr c \<Rightarrow>
          (case int_or_raise len of
             Inl e \<Rightarrow> Inl e
           | Inr l \<Rightarrow>
               if c < 1 then Inl (ValueError NotPositive)
               else if l < 1 then Inl (ValueError NotPositive)
               else Inr (new_generator c l pre suf)))"

section \<open>\<open>build_file\<close> (lines 110 to 131)\<close>

text \<open>
  \<open>os.path.splitext\<close> on a POSIX system: the extension starts at the last dot of the last
  path component, provided a character other than a dot comes before it in that component.
\<close>

definition splitext :: "string \<Rightarrow> string \<times> string" where
  "splitext p =
     (let name_rev = takeWhile (\<lambda>c. c \<noteq> CHR ''/'') (rev p);
          ext_rev = takeWhile (\<lambda>c. c \<noteq> CHR ''.'') name_rev;
          stem_rev = drop (length ext_rev + 1) name_rev;
          k = length p - (length ext_rev + 1)
      in if CHR ''.'' \<in> set name_rev \<and> (\<exists>c \<in> set stem_rev. c \<noteq> CHR ''.'')
         then (take k p, drop k p) else (p, []))"

text \<open>
  \<open>maxlines\<close> is \<open>None\<close> or a value that \<open>int(...)\<close> converts (the command line passes an
  integer); an exception of \<open>int\<close> is not caught here.
\<close>

definition build_file :: "generator \<Rightarrow> string \<Rightarrow> pyval \<Rightarrow> string \<Rightarrow> string \<Rightarrow> error + generator" where
  "build_file self filename maxlines_arg encoding_arg save_directory_arg =
     (let (base, ext0) = splitext filename;
          ext = (if ext0 = [] then ''.csv'' else ext0);
          self1 = self\<lparr>filename_base := base, filename_ext := ext\<rparr>
      in case (if maxlines_arg = PyNone then Inr (codes_count self1) else py_int maxlines_arg) of
           Inl e \<Rightarrow> Inl e
         | Inr m \<Rightarrow>
             if m < 1 then Inl (ValueError MaxlinesInvalid)
             else Inr (self1\<lparr>maxlines := m, encoding := encoding_arg,
                              save_directory := save_directory_arg\<rparr>))"

section \<open>The capacity check (lines 133 to 139 and 160 to 164)\<close>

text \<open>
  \<open>self.codes_count / combinations\<close> is Python's true division of two integers. Its value
  is the double nearest to the exact quotient, ties going to the even mantissa: the
  quotient is scaled to an integer of at most 53 bits (the exponent is never below that of
  the subnormal numbers, \<open>-1074\<close>), rounded, and scaled back. A zero divisor raises
  \<open>ZeroDivisionError\<close>; a result that is no finite double raises \<open>OverflowError\<close>. The
  result is kept as the rational number that the double stands for.
\<close>

definition round_half_even :: "rat \<Rightarrow> int" where
  "round_half_even x =
     (let f = \<lfloor>x\<rfloor>; r = x - of_int f
      in if r < 1 / 2 then f else if 1 / 2 < r then f + 1 else if even f then f else f + 1)"

text \<open>For positive \<open>a\<close> and \<open>b\<close>, the \<open>e\<close> with \<open>2 ^ e \<le> a / b < 2 ^ (e + 1)\<close>.\<close>

definition floor_log2 :: "int \<Rightarrow> int \<Rightarrow> int" where
  "floor_log2 a b =
     (let e = bitlen a - bitlen b
      in if (of_int b :: rat) * 2 powi e \<le> of_int a then e else e - 1)"

definition py_truediv :: "int \<Rightarrow> int \<Rightarrow> error + rat" where
  "py_truediv a b =
     (if b = 0 then Inl ZeroDivisionError
      else if a = 0 then Inr 0
      else
        (let e = floor_log2 \<bar>a\<bar> \<bar>b\<bar>;
             g = max (e - 52) (- 1074);
             m = round_half_even ((of_int \<bar>a\<bar> / of_int \<bar>b\<bar>) / 2 powi g);
             v = of_int m * 2 powi g
         in if 2 powi 1024 \<le> v then Inl OverflowError
            else Inr (of_int (sgn a * sgn b) * v)))"

text \<open>
  \<open>__check_probability\<close>. \<open>codes_length\<close> is at least 1 once the constructor has
  returned, so \<open>**\<close> is the power of two integers.
\<close>

definition check_probability :: "generator \<Rightarrow> error + rat" where
  "check_probability self =
     (let chars_number = int (length (charset self));
          combinations = chars_number ^ nat (codes_length self)
      in py_truediv (codes_count self) combinations)"

section \<open>The sampling loop (lines 141 to 158)\<close>

text \<open>
  The random source is a sequence \<open>rnd\<close> of natural numbers, read from position \<open>pos\<close>
  on: \<open>random.choice(seq)\<close> returns \<open>seq[k]\<close> for a random index \<open>k\<close> below
  \<open>len(seq)\<close>, and raises \<open>IndexError\<close> when \<open>seq\<close> is empty. \<open>random_code\<close> is the
  generator expression of lines 145 to 147, \<open>n\<close> draws joined into a string.
\<close>

fun random_code :: "string \<Rightarrow> (nat \<Rightarrow> nat) \<Rightarrow> nat \<Rightarrow> nat \<Rightarrow> error + string" where
  "random_code cs rnd pos 0 = Inr []"
| "random_code cs rnd pos (Suc n) =
     (if cs = [] then Inl IndexError
      else (case random_code cs rnd (Suc pos) n of
              Inl e \<Rightarrow> Inl e
            | Inr code \<Rightarrow> Inr (cs ! (rnd pos mod length cs) # code)))"

text \<open>Lines 148 to 151: the prefix and the suffix, when they are not \<open>None\<close>.\<close>

definition wrap_code :: "generator \<Rightarrow> string \<Rightarrow> string" where
  "wrap_code self code =
     (let code1 = (case prefix self of None \<Rightarrow> code | Some p \<Rightarrow> p @ code)
      in (case suffix self of None \<Rightarrow> code1 | Some s \<Rightarrow> code1 @ s))"

text \<open>
  \<open>__update_progress\<close> (lines 166 to 188) computes the progress line from the two counts
  and the wall clock and prints it. It changes nothing in the generator, but it can raise:
  \<open>timedelta(seconds=remaining_time)\<close> raises \<open>OverflowError\<close> when the estimate exceeds
  what a \<open>timedelta\<close> holds (a large total and a small fraction done), and \<open>print\<close> raises
  \<open>UnicodeEncodeError\<close> when the standard output cannot encode the bar characters. Both
  depend on the clock and on the terminal: \<open>progress current total\<close> is what the call
  with these counts does in the run at hand.
\<close>

datatype progress_result = Shown | TimedeltaOverflow | StdoutEncodeError

definition update_progress :: "(int \<Rightarrow> int \<Rightarrow> progress_result) \<Rightarrow> int \<Rightarrow> int \<Rightarrow> error option" where
  "update_progress progress current total_count =
     (case progress current total_count of
        Shown \<Rightarrow> None
      | TimedeltaOverflow \<Rightarrow> Some OverflowError
      | StdoutEncodeError \<Rightarrow> Some (ValueError EncodeError))"

text \<open>
  The \<open>while\<close> loop has no bound on its iterations: it is a partial function, and
  \<open>None\<close> is the run that never leaves the loop. A new code is added to the set and
  counted before the progress line is printed.
\<close>

partial_function (option) sampling_loop ::
  "generator \<Rightarrow> (nat \<Rightarrow> nat) \<Rightarrow> (int \<Rightarrow> int \<Rightarrow> progress_result) \<Rightarrow> nat \<Rightarrow> int
     \<Rightarrow> (error + generator) option" where
  "sampling_loop self rnd progress pos codes_generated =
     (if codes_generated < codes_count self then
        (case random_code (charset self) rnd pos (nat (codes_length self)) of
           Inl e \<Rightarrow> Some (Inl e)
         | Inr core \<Rightarrow>
             (let code = wrap_code self core
              in if code \<in> codes_set self
                 then sampling_loop self rnd progress (pos + nat (codes_length self))
                        codes_generated
                 else (case update_progress progress (codes_generated + 1) (codes_count self) of
                         Some e \<Rightarrow> Some (Inl e)
                       | None \<Rightarrow>
                           sampling_loop (self\<lparr>codes_set := insert code (codes_set self)\<rparr>) rnd
                             progress (pos + nat (codes_length self)) (codes_generated + 1))))
      else Some (Inr self))"

declare sampling_loop.simps [code]

definition generate_codes ::
  "generator \<Rightarrow> (nat \<Rightarrow> nat) \<Rightarrow> (int \<Rightarrow> int \<Rightarrow> progress_result) \<Rightarrow> (error + generator) option" where
  "generate_codes self rnd progress =
     (case check_probability self of
        Inl e \<Rightarrow> Some (Inl e)
      | Inr probability \<Rightarrow>
          if probability > 1 then Some (Inl (ValueError CannotGenerate))
          else sampling_loop self rnd progress 0 0)"

section \<open>Writing the files (lines 190 to 221)\<close>

text \<open>
  The file system: the directories that exist, and the files with their contents. The
  content of a file written by \<open>csv.writer\<close> is the list of its rows, a row being the list
  of the fields passed to \<open>writerow\<close>. \<open>os.makedirs\<close> also creates the missing ancestors of
  the directory, which are not tracked.
\<close>

record filesystem =
  dirs :: "string set"
  files :: "string \<rightharpoonup> string list list"

text \<open>
  What a run meets outside the program: the random source and the outcome of the progress
  line (see above); the order in which \<open>list(...)\<close> enumerates a set; whether
  \<open>os.makedirs\<close> can create a directory; whether \<open>open(..., "w")\<close> can open a path;
  whether an encoding exists; and what happens to a row written to a path in an encoding:
  it is written, or the device fails (an \<open>IOError\<close>, raised when the row is written or
  when the buffer that holds it is flushed), or the encoding has no code for one of its
  characters (\<open>UnicodeEncodeError\<close>).
\<close>

datatype write_result = Written | WriteIOError | WriteEncodeError

record environment =
  random_source :: "nat \<Rightarrow> nat"
  progress_line :: "int \<Rightarrow> int \<Rightarrow> progress_result"
  to_list :: "string set \<Rightarrow> string list"
  can_makedirs :: "string \<Rightarrow> bool"
  can_open :: "string \<Rightarrow> bool"
  known_encoding :: "string \<Rightarrow> bool"
  write_row :: "string \<Rightarrow> string \<Rightarrow> string list \<Rightarrow> write_result"

text \<open>\<open>os.path.exists\<close>: the empty path never exists.\<close>

definition path_exists :: "filesystem \<Rightarrow> string \<Rightarrow> bool" where
  "path_exists fs p = (p \<noteq> [] \<and> (p \<in> dirs fs \<or> files fs p \<noteq> None))"

text \<open>
  \<open>os.makedirs\<close>: it raises an \<open>OSError\<close> when it cannot create the directory, as it
  always does for the empty path.
\<close>

definition makedirs :: "environment \<Rightarrow> filesystem \<Rightarrow> string \<Rightarrow> error + filesystem" where
  "makedirs env fs p =
     (if p = [] \<or> \<not> can_makedirs env p then Inl OSError
      else Inr (fs\<lparr>dirs := insert p (dirs fs)\<rparr>))"

text \<open>\<open>os.path.join\<close> of two components on a POSIX system.\<close>

definition path_join :: "string \<Rightarrow> string \<Rightarrow> string" where
  "path_join a b =
     (if b \<noteq> [] \<and> hd b = CHR ''/'' then b
      else if a = [] \<or> last a = CHR ''/'' then a @ b
      else a @ ''/'' @ b)"

text \<open>
  \<open>str.split()\<close> without argument: the maximal runs of characters that are not white
  space. For \<open>str.split\<close> the white space below 256 is \<open>\t \n \x0b \x0c \r\<close>,
  \<open>\x1c\<close> to \<open>\x1f\<close>, the space, \<open>\x85\<close> and \<open>\xa0\<close>. \<open>split_from w s\<close> scans
  \<open>s\<close> with the current run \<open>w\<close> held in reverse.
\<close>

definition isspace :: "char \<Rightarrow> bool" where
  "isspace c = (of_char c \<in> ({9, 10, 11, 12, 13, 28, 29, 30, 31, 32, 133, 160} :: nat set))"

fun split_from :: "string \<Rightarrow> string \<Rightarrow> string list" where
  "split_from w [] = (if w = [] then [] else [rev w])"
| "split_from w (c # cs) =
     (if isspace c then (if w = [] then split_from [] cs else rev w # split_from [] cs)
      else split_from (c # w) cs)"

definition str_split :: "string \<Rightarrow> string list" where
  "str_split s = split_from [] s"

text \<open>
  \<open>str(n)\<close> of an integer, as the f-string of line 203 renders \<open>file_index + 1\<close> (a
  file index is below the length of a list, far from the digit limit of \<open>str\<close>).
\<close>

function str_nat :: "nat \<Rightarrow> string" where
  "str_nat n = (if n < 10 then [char_of (48 + n)] else str_nat (n div 10) @ [char_of (48 + n mod 10)])"
  by pat_completeness auto
termination
  by (relation "measure id") auto

declare str_nat.simps [simp del]

definition str_int :: "int \<Rightarrow> string" where
  "str_int i = (if i < 0 then CHR ''-'' # str_nat (nat (- i)) else str_nat (nat i))"

text \<open>Lines 201 to 208: the name and the path of the file with index \<open>file_index\<close>.\<close>

definition output_file_name :: "generator \<Rightarrow> int \<Rightarrow> int \<Rightarrow> string" where
  "output_file_name self num_files file_index =
     (if num_files > 1
      then filename_base self @ ''_'' @ str_int (file_index + 1) @ filename_ext self
      else filename_base self @ filename_ext self)"

definition file_path :: "generator \<Rightarrow> int \<Rightarrow> int \<Rightarrow> string" where
  "file_path self num_files file_index =
     path_join (save_directory self) (output_file_name self num_files file_index)"

text \<open>
  \<open>codes_list[start_index:end_index]\<close>; both indices are products of a file index and
  \<open>maxlines\<close> and not negative here.
\<close>

definition slice :: "'a list \<Rightarrow> int \<Rightarrow> int \<Rightarrow> 'a list" where
  "slice xs start_index end_index = drop (nat start_index) (take (nat end_index) xs)"

text \<open>
  Lines 218 and 219: one call of \<open>writerow\<close> for each code of the slice. The rows are
  written in order until one fails; the result is the exception, if any, and the rows that
  are in the file when it is closed.
\<close>

fun write_rows :: "(string list \<Rightarrow> write_result) \<Rightarrow> string list list \<Rightarrow> error option \<times> string list list" where
  "write_rows w [] = (None, [])"
| "write_rows w (row # rows) =
     (case w row of
        Written \<Rightarrow> (case write_rows w rows of (r, written) \<Rightarrow> (r, row # written))
      | WriteIOError \<Rightarrow> (Some (ValueError CouldNotWrite), [])
      | WriteEncodeError \<Rightarrow> (Some (ValueError EncodeError), []))"

text \<open>
  The \<open>for\<close> loop of line 197 over the file indices. \<open>open\<close> raises \<open>IOError\<close> for a path
  that it cannot open, and \<open>LookupError\<close>, with the file already created, for an encoding
  that does not exist. Line 221 turns an \<open>IOError\<close> into a \<open>ValueError\<close>; the other
  exceptions pass through the \<open>try\<close>. Any exception ends the loop, the files written so
  far staying in place. The fields of the row of a code are \<open>code.split()\<close>.
\<close>

fun save_files ::
  "generator \<Rightarrow> string list \<Rightarrow> environment \<Rightarrow> int \<Rightarrow> int list \<Rightarrow> filesystem
     \<Rightarrow> (error + unit) \<times> filesystem" where
  "save_files self codes_list env num_files [] fs = (Inr (), fs)"
| "save_files self codes_list env num_files (file_index # rest) fs =
     (let start_index = file_index * maxlines self;
          end_index = (file_index + 1) * maxlines self;
          path = file_path self num_files file_index
      in if \<not> can_open env path then (Inl (ValueError CouldNotWrite), fs)
         else if \<not> known_encoding env (encoding self)
           then (Inl LookupError, fs\<lparr>files := (files fs)(path \<mapsto> [])\<rparr>)
         else
           (case write_rows (write_row env path (encoding self))
                   (map str_split (slice codes_list start_index end_index)) of
              (Some e, written) \<Rightarrow> (Inl e, fs\<lparr>files := (files fs)(path \<mapsto> written)\<rparr>)
            | (None, written) \<Rightarrow>
                save_files self codes_list env num_files rest
                  (fs\<lparr>files := (files fs)(path \<mapsto> written)\<rparr>)))"

text \<open>
  \<open>__save_codes\<close>. The directory is created outside the \<open>try\<close>, so an \<open>OSError\<close> of
  \<open>os.makedirs\<close> leaves the method as it is. \<open>list(self.codes_set)\<close> lists the set in an
  order that Python does not specify: \<open>to_list\<close> is that enumeration. \<open>//\<close> is the floor
  division, as \<open>div\<close> on \<open>int\<close> is, and raises \<open>ZeroDivisionError\<close> for a zero
  \<open>maxlines\<close>.
\<close>

definition save_codes :: "generator \<Rightarrow> environment \<Rightarrow> filesystem \<Rightarrow> (error + unit) \<times> filesystem" where
  "save_codes self env fs =
     (case (if \<not> path_exists fs (save_directory self)
            then makedirs env fs (save_directory self) else Inr fs) of
        Inl e \<Rightarrow> (Inl e, fs)
      | Inr fs1 \<Rightarrow>
          (let codes_list = to_list env (codes_set self)
           in if maxlines self = 0 then (Inl ZeroDivisionError, fs1)
              else
                (let num_files = (int (length codes_list) - 1) div maxlines self + 1
                 in save_files self codes_list env num_files [0..num_files - 1] fs1)))"

section \<open>\<open>run\<close> and \<open>main\<close> (lines 223 to 294)\<close>

text \<open>
  \<open>run\<close> returns the generator after the sampling together with the file system, or the
  exception raised; \<open>None\<close> is the run whose sampling loop never ends.
\<close>

definition run ::
  "generator \<Rightarrow> environment \<Rightarrow> filesystem \<Rightarrow> ((error + generator) \<times> filesystem) option" where
  "run self env fs =
     (case generate_codes self (random_source env) (progress_line env) of
        None \<Rightarrow> None
      | Some (Inl e) \<Rightarrow> Some (Inl e, fs)
      | Some (Inr self1) \<Rightarrow>
          (case save_codes self1 env fs of
             (Inl e, fs1) \<Rightarrow> Some (Inl e, fs1)
           | (Inr u, fs1) \<Rightarrow> Some (Inr self1, fs1)))"

text \<open>
  The parsed command line. \<open>count\<close> and \<open>length\<close> are strings; \<open>maxlines\<close> is an integer
  or \<open>None\<close> (\<open>type=int\<close>); the parser admits the five charset names and the cases
  \<open>upper\<close> and \<open>lower\<close> only.
\<close>

record args =
  arg_count :: string
  arg_length :: string
  arg_charset :: string
  arg_omit :: "string option"
  arg_add :: "string option"
  arg_prefix :: "string option"
  arg_suffix :: "string option"
  arg_case :: string
  arg_filename :: "string option"
  arg_encoding :: string
  arg_maxlines :: "int option"

text \<open>
  The branch in which \<open>main\<close> ends: the \<open>try\<close> block has completed and the codes are
  saved; the handler of line 290 has caught a \<open>ValueError\<close>; the custom character set
  typed in is empty (line 268); another exception leaves \<open>main\<close> uncaught. The message
  that \<open>main\<close> prints in the first three branches comes after everything else and is
  not part of the outcome.
\<close>

datatype outcome = Saved generator | Failed error | Aborted | Uncaught error

text \<open>\<open>str.lower()\<close> on the ASCII letters.\<close>

definition lower :: "string \<Rightarrow> string" where
  "lower s = map (\<lambda>c. if 65 \<le> (of_char c :: nat) \<and> (of_char c :: nat) \<le> 90
                        then char_of (of_char c + 32 :: nat) else c) s"

definition handle :: "error \<Rightarrow> outcome" where
  "handle e = (case e of ValueError m \<Rightarrow> Failed e | _ \<Rightarrow> Uncaught e)"

text \<open>Lines 279 to 294: the \<open>try\<close> block of \<open>main\<close> and its handler.\<close>

definition main_try ::
  "args \<Rightarrow> string option \<Rightarrow> string \<Rightarrow> environment \<Rightarrow> filesystem \<Rightarrow> (outcome \<times> filesystem) option" where
  "main_try a custom_charset filename env fs =
     (case init (PyStr (arg_count a)) (PyStr (arg_length a)) (arg_prefix a) (arg_suffix a) of
        Inl e \<Rightarrow> Some (handle e, fs)
      | Inr cg0 \<Rightarrow>
          (case build_character_set cg0 (arg_charset a) (arg_case a) (arg_omit a)
                  (arg_add a) custom_charset of
             Inl e \<Rightarrow> Some (handle e, fs)
           | Inr cg1 \<Rightarrow>
               (case build_file cg1 filename
                       (case arg_maxlines a of None \<Rightarrow> PyNone | Some m \<Rightarrow> PyInt m)
                       (arg_encoding a) ''codes'' of
                  Inl e \<Rightarrow> Some (handle e, fs)
                | Inr cg2 \<Rightarrow>
                    (case run cg2 env fs of
                       None \<Rightarrow> None
                     | Some (Inl e, fs1) \<Rightarrow> Some (handle e, fs1)
                     | Some (Inr cg3, fs1) \<Rightarrow> Some (Saved cg3, fs1)))))"

text \<open>
  \<open>main\<close> from line 266 on. \<open>typed\<close> is the line that \<open>input(...)\<close> reads, \<open>None\<close> when
  the standard input is at its end and \<open>input\<close> raises \<open>EOFError\<close>; \<open>now\<close> is the time
  stamp \<open>datetime.now().strftime("%Y%m%d%H%M%S")\<close>.
\<close>

definition main ::
  "args \<Rightarrow> string option \<Rightarrow> string \<Rightarrow> environment \<Rightarrow> filesystem \<Rightarrow> (outcome \<times> filesystem) option" where
  "main a typed now env fs =
     (let filename = (case arg_filename a of
                        Some f \<Rightarrow> f
                      | None \<Rightarrow> ''codes_'' @ now @ ''.csv'')
      in if lower (arg_charset a) = ''custom'' then
           (case typed of
              None \<Rightarrow> Some (Uncaught EOFError, fs)
            | Some custom_charset \<Rightarrow>
                if custom_charset = [] then Some (Aborted, fs)
                else main_try a (Some custom_charset) filename env fs)
         else main_try a None filename env fs)"

section \<open>Predicates of the proofs\<close>

text \<open>
  \<open>code_shape self code\<close>: the code is the prefix, a core of \<open>codes_length\<close> characters
  of the alphabet, and the suffix. \<open>drawn_code self rnd k\<close>: the code that the sampling
  loop forms in its iteration \<open>k\<close> (counted from 0) from the draws of the random source.
  \<open>loop_post self rnd progress pos codes_generated y\<close>: what the sampling loop, entered
  at the position \<open>pos\<close> of the random source with \<open>codes_generated\<close> codes counted, has
  done when it returns \<open>y\<close>.
\<close>

definition code_shape :: "generator \<Rightarrow> string \<Rightarrow> bool" where
  "code_shape self code \<longleftrightarrow>
     (\<exists>core. code = chars_of (prefix self) @ core @ chars_of (suffix self) \<and>
             length core = nat (codes_length self) \<and> set core \<subseteq> set (charset self))"

definition code_at :: "generator \<Rightarrow> (nat \<Rightarrow> nat) \<Rightarrow> nat \<Rightarrow> string" where
  "code_at self rnd pos =
     (case random_code (charset self) rnd pos (nat (codes_length self)) of
        Inl e \<Rightarrow> []
      | Inr core \<Rightarrow> wrap_code self core)"

definition drawn_code :: "generator \<Rightarrow> (nat \<Rightarrow> nat) \<Rightarrow> nat \<Rightarrow> string" where
  "drawn_code self rnd k = code_at self rnd (k * nat (codes_length self))"

definition loop_post ::
  "generator \<Rightarrow> (nat \<Rightarrow> nat) \<Rightarrow> (int \<Rightarrow> int \<Rightarrow> progress_result) \<Rightarrow> nat \<Rightarrow> int
     \<Rightarrow> error + generator \<Rightarrow> bool" where
  "loop_post self rnd progress pos codes_generated y \<longleftrightarrow>
     (case y of
        Inl e \<Rightarrow> (charset self = [] \<and> e = IndexError)
                   \<or> (\<exists>current. update_progress progress current (codes_count self) = Some e)
      | Inr self1 \<Rightarrow>
          self1 = self\<lparr>codes_set := codes_set self1\<rparr> \<and>
          codes_set self \<subseteq> codes_set self1 \<and> finite (codes_set self1) \<and>
          card (codes_set self1 - codes_set self) = nat (codes_count self - codes_generated) \<and>
          (\<forall>code \<in> codes_set self1 - codes_set self.
             code_shape self code \<and>
             (\<exists>j. code = code_at self rnd (pos + j * nat (codes_length self)))))"

section \<open>Properties of the character set builder\<close>

lemma build_character_set_error_kind:
  "build_character_set self charset_name case_arg omit add custom_chars = Inl e
     \<Longrightarrow> is_configuration_error e"
  by (auto simp: build_character_set_def select_alpha_def select_base_def apply_omit_def
        apply_add_def split: sum.splits if_splits option.splits)

lemma distinct_RECOMMENDED_CHARS: "distinct RECOMMENDED_CHARS"
  by (simp add: RECOMMENDED_CHARS_def)

lemma distinct_digits: "distinct digits"
  by (simp add: digits_def)

lemma distinct_ascii_lowercase: "distinct ascii_lowercase"
  by (simp add: ascii_lowercase_def)

lemma distinct_ascii_uppercase: "distinct ascii_uppercase"
  by (simp add: ascii_uppercase_def)

lemma distinct_ascii_letters: "distinct ascii_letters"
  by (simp add: ascii_letters_def ascii_lowercase_def ascii_uppercase_def)

lemma select_alpha_distinct: "select_alpha case_arg = Inr alphaSet \<Longrightarrow> distinct alphaSet"
  by (auto simp: select_alpha_def distinct_ascii_lowercase distinct_ascii_uppercase
        distinct_ascii_letters split: if_splits)

lemma digits_alpha_disjoint:
  "select_alpha case_arg = Inr alphaSet \<Longrightarrow> set digits \<inter> set alphaSet = {}"
  by (auto simp: select_alpha_def digits_def ascii_letters_def ascii_lowercase_def
        ascii_uppercase_def split: if_splits)

lemma select_base_distinct:
  assumes "select_alpha case_arg = Inr alphaSet"
    and "select_base charset_name alphaSet custom_chars = Inr B"
  shows "distinct B"
  using assms select_alpha_distinct[OF assms(1)] digits_alpha_disjoint[OF assms(1)]
  by (auto simp: select_base_def distinct_RECOMMENDED_CHARS distinct_digits card_distinct
        split: if_splits option.splits)

lemma invalid_chars_Nil_iff: "invalid_chars s = [] \<longleftrightarrow> set s \<subseteq> set printable"
  by (auto simp: invalid_chars_def filter_empty_conv)

lemma apply_omit_eq:
  "apply_omit omit cs =
     (if set (chars_of omit) \<subseteq> set printable
      then Inr (filter (\<lambda>c. c \<notin> set (chars_of omit)) cs) else Inl (ValueError OmitInvalid))"
  by (simp add: apply_omit_def chars_of_def invalid_chars_Nil_iff split: option.splits)

lemma apply_add_eq:
  "apply_add add cs =
     (if set (chars_of add) \<subseteq> set printable
      then Inr (cs @ chars_of add) else Inl (ValueError AddInvalid))"
  by (simp add: apply_add_def chars_of_def invalid_chars_Nil_iff split: option.splits)

lemma select_base_custom_fails:
  assumes "custom_chars = None \<or> custom_chars = Some [] \<or>
           \<not> distinct (chars_of custom_chars) \<or>
           \<not> set (chars_of custom_chars) \<subseteq> set printable"
  shows "\<exists>e. select_base ''custom'' alphaSet custom_chars = Inl e"
proof (cases custom_chars)
  case None
  then show ?thesis by (simp add: select_base_def)
next
  case (Some cs)
  with assms have "cs = [] \<or> \<not> distinct cs \<or> invalid_chars cs \<noteq> []"
    by (simp add: chars_of_def invalid_chars_Nil_iff)
  then have "cs = [] \<or> length cs \<noteq> card (set cs) \<or> invalid_chars cs \<noteq> []"
    using card_distinct [of cs] by metis
  with Some show ?thesis by (auto simp: select_base_def)
qed

lemma build_character_set_steps:
  assumes "select_alpha case_arg = Inr alphaSet"
    and "select_base charset_name alphaSet custom_chars = Inr B"
  shows "build_character_set self charset_name case_arg omit add custom_chars =
           (if \<not> set (chars_of omit) \<subseteq> set printable then Inl (ValueError OmitInvalid)
            else if \<not> set (chars_of add) \<subseteq> set printable then Inl (ValueError AddInvalid)
            else if filter (\<lambda>c. c \<notin> set (chars_of omit)) B @ chars_of add = []
              then Inl (ValueError CharsetEmpty)
            else Inr (self\<lparr>charset := filter (\<lambda>c. c \<notin> set (chars_of omit)) B @ chars_of add\<rparr>))"
  using assms by (simp add: build_character_set_def apply_omit_eq apply_add_eq)

text \<open>
  Claim C10. \<open>build_character_set\<close> checks the case option first: for every case other
  than \<open>lower\<close>, \<open>mixed\<close> and \<open>upper\<close> it raises the error of line 56, whatever the
  charset and the other arguments are, also for a charset that does not use the case.
\<close>

theorem build_character_set_invalid_case:
  "case_arg \<notin> {''lower'', ''mixed'', ''upper''} \<Longrightarrow>
   build_character_set self charset_name case_arg omit add custom_chars
     = Inl (ValueError InvalidCase)"
  by (simp add: build_character_set_def select_alpha_def)

theorem build_character_set_invalid_case_witness:
  "''title'' \<notin> {''lower'', ''mixed'', ''upper''} \<and>
   build_character_set (new_generator 5 3 None None) ''numeric'' ''title'' None None None
     = Inl (ValueError InvalidCase)"
  using build_character_set_invalid_case
          [of "''title''" "new_generator 5 3 None None" "''numeric''" None None None]
  by simp

text \<open>
  Claim C3. For every base character set \<open>B\<close> that the charset name, the case and the
  custom characters select, and all printable omit and add characters, the alphabet built
  is \<open>B\<close> without the characters of \<open>omit\<close>, in the order of \<open>B\<close>, followed by the
  characters of \<open>add\<close> as they are given, duplicates included (the builder raises instead
  when this alphabet is empty).
\<close>

theorem build_character_set_omit_add:
  assumes "select_alpha case_arg = Inr alphaSet"
    and "select_base charset_name alphaSet custom_chars = Inr B"
    and "set (chars_of omit) \<subseteq> set printable" and "set (chars_of add) \<subseteq> set printable"
    and "filter (\<lambda>c. c \<notin> set (chars_of omit)) B @ chars_of add \<noteq> []"
  shows "build_character_set self charset_name case_arg omit add custom_chars
           = Inr (self\<lparr>charset := filter (\<lambda>c. c \<notin> set (chars_of omit)) B @ chars_of add\<rparr>)"
  using assms by (simp add: build_character_set_def apply_omit_eq apply_add_eq)

theorem build_character_set_omit_add_witness:
  "build_character_set (new_generator 5 3 None None) ''numeric'' ''upper''
     (Some ''13'') (Some ''1x'') None
   = Inr ((new_generator 5 3 None None)\<lparr>charset := ''024567891x''\<rparr>)"
proof -
  have a: "select_alpha ''upper'' = Inr ascii_uppercase"
    by (simp add: select_alpha_def)
  have b: "select_base ''numeric'' ascii_uppercase None = Inr digits"
    by (simp add: select_base_def)
  have c: "set (chars_of (Some ''13'')) \<subseteq> set printable"
    by (simp add: chars_of_def printable_def digits_def)
  have d: "set (chars_of (Some ''1x'')) \<subseteq> set printable"
    by (simp add: chars_of_def printable_def digits_def ascii_letters_def ascii_lowercase_def)
  have e: "filter (\<lambda>c. c \<notin> set (chars_of (Some ''13''))) digits @ chars_of (Some ''1x'') \<noteq> []"
    by (simp add: chars_of_def)
  show ?thesis
    using build_character_set_omit_add [OF a b c d e, of "new_generator 5 3 None None"]
    by (simp add: chars_of_def digits_def)
qed

text \<open>
  Claim C5 says that no alphabet built has a duplicate character. The builder appends the
  add characters without looking at the alphabet: adding \<open>2\<close> to the recommended set
  gives an alphabet with two \<open>2\<close>.
\<close>

theorem build_character_set_duplicates_counterexample:
  "build_character_set (new_generator 5 3 None None) ''recommended'' ''upper'' None (Some ''2'') None
     = Inr ((new_generator 5 3 None None)\<lparr>charset := ''2345679ACDEFGHJKLMNPRSTUVXYZ2''\<rparr>)
   \<and> \<not> distinct ''2345679ACDEFGHJKLMNPRSTUVXYZ2''"
  by (simp add: build_character_set_def select_alpha_def select_base_def apply_omit_def
        apply_add_def invalid_chars_def printable_def digits_def RECOMMENDED_CHARS_def)

text \<open>
  Claim C5, amended. An alphabet built from the base set \<open>B\<close> has no duplicate character
  exactly when the add characters are pairwise distinct and none of them is a character
  of \<open>B\<close> that was not omitted; so it has none whenever no add characters are given.
\<close>

theorem build_character_set_distinct_iff:
  assumes "select_alpha case_arg = Inr alphaSet"
    and "select_base charset_name alphaSet custom_chars = Inr B"
    and "build_character_set self charset_name case_arg omit add custom_chars = Inr self1"
  shows "distinct (charset self1) \<longleftrightarrow>
           distinct (chars_of add) \<and>
           (\<forall>c \<in> set (chars_of add). c \<notin> set B \<or> c \<in> set (chars_of omit))"
proof -
  have "distinct B"
    using assms(1,2) by (rule select_base_distinct)
  moreover have "charset self1 = filter (\<lambda>c. c \<notin> set (chars_of omit)) B @ chars_of add"
    using assms by (auto simp: build_character_set_def apply_omit_eq apply_add_eq split: if_splits)
  ultimately show ?thesis
    by auto
qed

theorem build_character_set_distinct_iff_witness:
  "build_character_set (new_generator 5 3 None None) ''custom'' ''upper'' None (Some ''x'')
     (Some ''45'') = Inr ((new_generator 5 3 None None)\<lparr>charset := ''45x''\<rparr>)
   \<and> distinct (charset ((new_generator 5 3 None None)\<lparr>charset := ''45x''\<rparr>))"
proof -
  have a: "select_alpha ''upper'' = Inr ascii_uppercase"
    by (simp add: select_alpha_def)
  have b: "select_base ''custom'' ascii_uppercase (Some ''45'') = Inr ''45''"
    by (simp add: select_base_def invalid_chars_def printable_def digits_def)
  have c: "build_character_set (new_generator 5 3 None None) ''custom'' ''upper'' None (Some ''x'')
             (Some ''45'') = Inr ((new_generator 5 3 None None)\<lparr>charset := ''45x''\<rparr>)"
    by (simp add: build_character_set_def a b apply_omit_def apply_add_def invalid_chars_def
          printable_def digits_def ascii_letters_def ascii_lowercase_def)
  have d: "distinct (chars_of (Some ''x'')) \<and>
           (\<forall>c \<in> set (chars_of (Some ''x'')). c \<notin> set ''45'' \<or> c \<in> set (chars_of None))"
    by (simp add: chars_of_def)
  show ?thesis
    using c d build_character_set_distinct_iff [OF a b c] by blast
qed

text \<open>
  Claim C6 says that the builder fails whenever the custom characters have a duplicate.
  The custom characters are read for the charset \<open>custom\<close> only: with the charset
  \<open>numeric\<close> the custom characters \<open>aab\<close> are accepted and the digits are built.
\<close>

theorem build_character_set_custom_ignored_counterexample:
  "build_character_set (new_generator 5 3 None None) ''numeric'' ''upper'' None None (Some ''aab'')
     = Inr ((new_generator 5 3 None None)\<lparr>charset := ''0123456789''\<rparr>)
   \<and> \<not> distinct ''aab''"
  by (simp add: build_character_set_def select_alpha_def select_base_def apply_omit_def
        apply_add_def digits_def)

text \<open>
  Claim C6, amended. The builder fails with a configuration error, and returns no
  alphabet, whenever the charset is \<open>custom\<close> and the custom characters are unspecified,
  empty, hold a character twice or hold a character that is not printable; whenever an
  omit or an add character is not printable; and whenever the alphabet after omit and add
  is empty.
\<close>

theorem build_character_set_fails:
  assumes "(charset_name = ''custom'' \<and>
              (custom_chars = None \<or> custom_chars = Some [] \<or>
               \<not> distinct (chars_of custom_chars) \<or>
               \<not> set (chars_of custom_chars) \<subseteq> set printable))
           \<or> \<not> set (chars_of omit) \<subseteq> set printable
           \<or> \<not> set (chars_of add) \<subseteq> set printable
           \<or> (\<exists>alphaSet B. select_alpha case_arg = Inr alphaSet \<and>
                 select_base charset_name alphaSet custom_chars = Inr B \<and>
                 filter (\<lambda>c. c \<notin> set (chars_of omit)) B @ chars_of add = [])"
  shows "\<exists>e. build_character_set self charset_name case_arg omit add custom_chars = Inl e
              \<and> is_configuration_error e"
proof -
  have "\<exists>e. build_character_set self charset_name case_arg omit add custom_chars = Inl e"
  proof (cases "select_alpha case_arg")
    case (Inl e)
    then show ?thesis by (simp add: build_character_set_def)
  next
    case alpha: (Inr alphaSet)
    show ?thesis
    proof (cases "select_base charset_name alphaSet custom_chars")
      case (Inl e)
      with alpha show ?thesis by (simp add: build_character_set_def)
    next
      case base: (Inr B)
      have "\<not> (charset_name = ''custom'' \<and>
              (custom_chars = None \<or> custom_chars = Some [] \<or>
               \<not> distinct (chars_of custom_chars) \<or>
               \<not> set (chars_of custom_chars) \<subseteq> set printable))"
      proof
        assume c: "charset_name = ''custom'' \<and>
              (custom_chars = None \<or> custom_chars = Some [] \<or>
               \<not> distinct (chars_of custom_chars) \<or>
               \<not> set (chars_of custom_chars) \<subseteq> set printable)"
        then obtain e where "select_base ''custom'' alphaSet custom_chars = Inl e"
          using select_base_custom_fails [of custom_chars alphaSet] by blast
        with base c show False by simp
      qed
      with assms alpha base
      have "\<not> set (chars_of omit) \<subseteq> set printable
            \<or> \<not> set (chars_of add) \<subseteq> set printable
            \<or> filter (\<lambda>c. c \<notin> set (chars_of omit)) B @ chars_of add = []"
        by auto
      then show ?thesis
        unfolding build_character_set_steps [OF alpha base] by auto
    qed
  qed
  then show ?thesis
    using build_character_set_error_kind by blast
qed

theorem build_character_set_fails_witness:
  "\<not> distinct (chars_of (Some ''aab'')) \<and>
   (\<exists>e. build_character_set (new_generator 5 3 None None) ''custom'' ''upper'' None None
           (Some ''aab'') = Inl e \<and> is_configuration_error e)"
proof -
  have h: "\<not> distinct (chars_of (Some ''aab''))"
    by (simp add: chars_of_def)
  then have "(''custom'' = ''custom'' \<and>
              (Some ''aab'' = None \<or> Some ''aab'' = Some [] \<or>
               \<not> distinct (chars_of (Some ''aab'')) \<or>
               \<not> set (chars_of (Some ''aab'')) \<subseteq> set printable))
           \<or> \<not> set (chars_of None) \<subseteq> set printable
           \<or> \<not> set (chars_of None) \<subseteq> set printable
           \<or> (\<exists>alphaSet B. select_alpha ''upper'' = Inr alphaSet \<and>
                 select_base ''custom'' alphaSet (Some ''aab'') = Inr B \<and>
                 filter (\<lambda>c. c \<notin> set (chars_of None)) B @ chars_of None = [])"
    by blast
  from build_character_set_fails [OF this, of "new_generator 5 3 None None"] h
  show ?thesis by blast
qed

section \<open>Properties of the code generation\<close>

lemma random_code_Inr:
  "random_code cs rnd pos n = Inr core \<Longrightarrow> length core = n \<and> set core \<subseteq> set cs"
proof (induction n arbitrary: pos core)
  case 0
  then show ?case by simp
next
  case (Suc n)
  from Suc.prems have ne: "cs \<noteq> []"
    by (auto split: if_splits)
  with Suc.prems obtain rest where rest: "random_code cs rnd (Suc pos) n = Inr rest"
    and core: "core = cs ! (rnd pos mod length cs) # rest"
    by (auto split: sum.splits)
  from Suc.IH [OF rest] have "length rest = n" and "set rest \<subseteq> set cs"
    by simp_all
  moreover from ne have "cs ! (rnd pos mod length cs) \<in> set cs"
    by simp
  ultimately show ?case
    using core by simp
qed

lemma random_code_Inl:
  "random_code cs rnd pos n = Inl e \<Longrightarrow> cs = [] \<and> e = IndexError"
  by (induction n arbitrary: pos) (auto split: if_splits sum.splits)

lemma random_code_nonempty:
  "cs \<noteq> [] \<Longrightarrow> \<exists>core. random_code cs rnd pos n = Inr core"
proof (induction n arbitrary: pos)
  case 0
  show ?case by simp
next
  case (Suc n)
  from Suc.IH [OF Suc.prems, of "Suc pos"] obtain rest
    where "random_code cs rnd (Suc pos) n = Inr rest"
    by blast
  with Suc.prems show ?case by simp
qed

lemma wrap_code_eq:
  "wrap_code self core = chars_of (prefix self) @ core @ chars_of (suffix self)"
  by (simp add: wrap_code_def chars_of_def split: option.splits)

lemma code_shape_codes_set [simp]:
  "code_shape (self\<lparr>codes_set := S\<rparr>) code = code_shape self code"
  by (simp add: code_shape_def)

lemma code_at_codes_set [simp]:
  "code_at (self\<lparr>codes_set := S\<rparr>) rnd pos = code_at self rnd pos"
  by (simp add: code_at_def wrap_code_def split: sum.splits)

lemma update_progress_Some:
  "update_progress progress c t = Some e \<Longrightarrow> e = OverflowError \<or> e = ValueError EncodeError"
  by (auto simp: update_progress_def split: progress_result.splits)

lemma loop_post_exit:
  "\<not> codes_generated < codes_count self \<Longrightarrow> finite (codes_set self)
     \<Longrightarrow> loop_post self rnd progress pos codes_generated (Inr self)"
  by (simp add: loop_post_def)

lemma loop_post_skip:
  assumes "loop_post self rnd progress (pos + nat (codes_length self)) codes_generated y"
  shows "loop_post self rnd progress pos codes_generated y"
proof (cases y)
  case (Inl e)
  with assms show ?thesis by (simp add: loop_post_def)
next
  case (Inr self1)
  have shift: "\<exists>j. code = code_at self rnd (pos + j * nat (codes_length self))"
    if "\<exists>j. code = code_at self rnd (pos + nat (codes_length self) + j * nat (codes_length self))"
    for code
  proof -
    from that obtain j
      where "code = code_at self rnd (pos + nat (codes_length self) + j * nat (codes_length self))"
      by blast
    then have "code = code_at self rnd (pos + Suc j * nat (codes_length self))"
      by (simp add: add.assoc)
    then show ?thesis by blast
  qed
  from assms Inr show ?thesis
    unfolding loop_post_def using shift by auto
qed

lemma loop_post_insert:
  assumes post: "loop_post (self\<lparr>codes_set := insert code (codes_set self)\<rparr>) rnd progress
                   (pos + nat (codes_length self)) (codes_generated + 1) y"
    and new: "code \<notin> codes_set self"
    and shape: "code_shape self code"
    and drawn: "code = code_at self rnd pos"
    and lt: "codes_generated < codes_count self"
  shows "loop_post self rnd progress pos codes_generated y"
proof (cases y)
  case (Inl e)
  with post show ?thesis by (simp add: loop_post_def)
next
  case (Inr self1)
  let ?S = "codes_set self" and ?S1 = "codes_set self1" and ?L = "nat (codes_length self)"
  from post Inr have eq: "self1 = self\<lparr>codes_set := ?S1\<rparr>"
    and sub: "insert code ?S \<subseteq> ?S1" and fin: "finite ?S1"
    and card: "card (?S1 - insert code ?S) = nat (codes_count self - (codes_generated + 1))"
    and shapes: "\<forall>c \<in> ?S1 - insert code ?S. code_shape self c \<and>
                   (\<exists>j. c = code_at self rnd (pos + ?L + j * ?L))"
    by (simp_all add: loop_post_def)
  have split: "?S1 - ?S = insert code (?S1 - insert code ?S)"
    using sub new by auto
  have "card (?S1 - ?S) = Suc (card (?S1 - insert code ?S))"
    unfolding split using fin by (subst card_insert_disjoint) auto
  also have "\<dots> = nat (codes_count self - codes_generated)"
    using card lt by simp
  finally have c: "card (?S1 - ?S) = nat (codes_count self - codes_generated)" .
  have "code_shape self c \<and> (\<exists>j. c = code_at self rnd (pos + j * ?L))"
    if "c \<in> ?S1 - ?S" for c
  proof (cases "c = code")
    case True
    have "code = code_at self rnd (pos + 0 * ?L)"
      using drawn by simp
    then have "\<exists>j. code = code_at self rnd (pos + j * ?L)"
      by blast
    with True shape show ?thesis by simp
  next
    case False
    with that have "c \<in> ?S1 - insert code ?S" by simp
    with shapes obtain j where "code_shape self c"
      and "c = code_at self rnd (pos + ?L + j * ?L)"
      by blast
    then have "c = code_at self rnd (pos + Suc j * ?L)"
      by (simp add: add.assoc)
    with \<open>code_shape self c\<close> show ?thesis by blast
  qed
  then show ?thesis
    using Inr eq sub fin c by (simp add: loop_post_def)
qed

lemma sampling_loop_post:
  "sampling_loop self rnd progress pos codes_generated = Some y
     \<Longrightarrow> finite (codes_set self) \<longrightarrow> loop_post self rnd progress pos codes_generated y"
proof (rule sampling_loop.raw_induct
    [where P = "\<lambda>self rnd progress pos codes_generated y.
                  finite (codes_set self) \<longrightarrow> loop_post self rnd progress pos codes_generated y"])
  fix loop :: "generator \<Rightarrow> (nat \<Rightarrow> nat) \<Rightarrow> (int \<Rightarrow> int \<Rightarrow> progress_result) \<Rightarrow> nat \<Rightarrow> int
                 \<Rightarrow> (error + generator) option"
    and self rnd progress pos codes_generated y
  assume IH: "\<And>self rnd progress pos codes_generated y.
                loop self rnd progress pos codes_generated = Some y
                \<Longrightarrow> finite (codes_set self) \<longrightarrow> loop_post self rnd progress pos codes_generated y"
  assume body: "(if codes_generated < codes_count self then
        (case random_code (charset self) rnd pos (nat (codes_length self)) of
           Inl e \<Rightarrow> Some (Inl e)
         | Inr core \<Rightarrow>
             (let code = wrap_code self core
              in if code \<in> codes_set self
                 then loop self rnd progress (pos + nat (codes_length self)) codes_generated
                 else (case update_progress progress (codes_generated + 1) (codes_count self) of
                         Some e \<Rightarrow> Some (Inl e)
                       | None \<Rightarrow>
                           loop (self\<lparr>codes_set := insert code (codes_set self)\<rparr>) rnd
                             progress (pos + nat (codes_length self)) (codes_generated + 1))))
      else Some (Inr self)) = Some y"
  show "finite (codes_set self) \<longrightarrow> loop_post self rnd progress pos codes_generated y"
  proof
    assume fin: "finite (codes_set self)"
    show "loop_post self rnd progress pos codes_generated y"
    proof (cases "codes_generated < codes_count self")
      case False
      with body fin show ?thesis by (auto intro: loop_post_exit)
    next
      case lt: True
      show ?thesis
      proof (cases "random_code (charset self) rnd pos (nat (codes_length self))")
        case (Inl e)
        with body lt have "y = Inl e" by simp
        with random_code_Inl [OF Inl] show ?thesis by (simp add: loop_post_def)
      next
        case (Inr core)
        let ?code = "wrap_code self core"
        have drawn: "?code = code_at self rnd pos"
          using Inr by (simp add: code_at_def)
        show ?thesis
        proof (cases "?code \<in> codes_set self")
          case True
          with body lt Inr
          have "loop self rnd progress (pos + nat (codes_length self)) codes_generated = Some y"
            by simp
          from IH [OF this] fin
          have "loop_post self rnd progress (pos + nat (codes_length self)) codes_generated y"
            by simp
          then show ?thesis by (rule loop_post_skip)
        next
          case False
          show ?thesis
          proof (cases "update_progress progress (codes_generated + 1) (codes_count self)")
            case (Some e)
            with body lt Inr False have "y = Inl e" by simp
            with Some show ?thesis
              by (auto simp: loop_post_def)
          next
            case None
            with body lt Inr False
            have "loop (self\<lparr>codes_set := insert ?code (codes_set self)\<rparr>) rnd progress
                    (pos + nat (codes_length self)) (codes_generated + 1) = Some y"
              by simp
            from IH [OF this] fin
            have post: "loop_post (self\<lparr>codes_set := insert ?code (codes_set self)\<rparr>) rnd progress
                    (pos + nat (codes_length (self\<lparr>codes_set := insert ?code (codes_set self)\<rparr>)))
                    (codes_generated + 1) y"
              by simp
            have shape: "code_shape self ?code"
              using random_code_Inr [OF Inr] by (auto simp: code_shape_def wrap_code_eq)
            show ?thesis
              using post by (intro loop_post_insert [OF _ False shape drawn lt]) simp
          qed
        qed
      qed
    qed
  qed
qed

lemma round_half_even_le:
  assumes "x \<le> of_int k"
  shows "round_half_even x \<le> k"
proof -
  have fl: "\<lfloor>x\<rfloor> \<le> k"
    using assms by (simp add: floor_le_iff)
  show ?thesis
  proof (cases "\<lfloor>x\<rfloor> = k")
    case True
    then have "of_int k \<le> x"
      using of_int_floor_le [of x] by simp
    with assms have "x = of_int k" by simp
    then show ?thesis
      by (simp add: round_half_even_def)
  next
    case False
    with fl have "\<lfloor>x\<rfloor> + 1 \<le> k" by simp
    then show ?thesis
      using fl by (simp add: round_half_even_def Let_def)
  qed
qed

lemma bitlen_mono: "a \<le> b \<Longrightarrow> bitlen a \<le> bitlen b"
  by (simp add: bitlen_def floorlog_mono nat_mono)

lemma floor_log2_nonpos: "a \<le> b \<Longrightarrow> floor_log2 a b \<le> 0"
  using bitlen_mono [of a b] by (simp add: floor_log2_def Let_def)

lemma py_truediv_le_one:
  assumes "0 < a" and "a \<le> b"
  shows "\<exists>r. py_truediv a b = Inr r \<and> r \<le> 1"
proof -
  define g where "g = max (floor_log2 \<bar>a\<bar> \<bar>b\<bar> - 52) (- 1074)"
  define n where "n = nat (- g)"
  define x :: rat where "x = (of_int \<bar>a\<bar> / of_int \<bar>b\<bar>) / 2 powi g"
  define m where "m = round_half_even x"
  have abs: "\<bar>a\<bar> = a" "\<bar>b\<bar> = b" and sgn: "sgn a * sgn b = 1" and nz: "a \<noteq> 0" "b \<noteq> 0"
    using assms by simp_all
  have "floor_log2 \<bar>a\<bar> \<bar>b\<bar> \<le> 0"
    using assms by (simp add: abs floor_log2_nonpos)
  then have g: "g < 0"
    by (simp add: g_def)
  then have pw: "(2 :: rat) powi g = 1 / 2 ^ n"
    by (simp add: power_int_def n_def field_simps)
  have q: "(of_int a :: rat) / of_int b \<le> 1"
    using assms by simp
  have "x = (of_int a / of_int b) * 2 ^ n"
    by (simp add: x_def pw abs)
  also have "\<dots> \<le> 1 * 2 ^ n"
    using q by (intro mult_right_mono) simp_all
  finally have "x \<le> of_int (2 ^ n)"
    by simp
  then have m: "m \<le> 2 ^ n"
    unfolding m_def by (rule round_half_even_le)
  have "(of_int m :: rat) \<le> of_int (2 ^ n)"
    using m by (simp only: of_int_le_iff)
  then have v: "(of_int m :: rat) * 2 powi g \<le> 1"
    by (simp add: pw field_simps)
  have "(1 :: rat) < 2 powi 1024"
    by (simp add: power_int_def)
  with v have no: "\<not> (2 :: rat) powi 1024 \<le> of_int m * 2 powi g"
    by simp
  have "py_truediv a b = Inr (of_int m * 2 powi g)"
    using no nz sgn
    by (simp add: py_truediv_def Let_def m_def x_def g_def [symmetric])
  with v show ?thesis by blast
qed

lemma check_probability_passes:
  assumes "1 \<le> codes_count self"
    and "codes_count self \<le> int (length (charset self)) ^ nat (codes_length self)"
  shows "\<exists>p. check_probability self = Inr p \<and> \<not> p > 1"
  using py_truediv_le_one [of "codes_count self"
          "int (length (charset self)) ^ nat (codes_length self)"] assms
  by (auto simp: check_probability_def Let_def)


lemma sampling_loop_exit:
  "\<not> codes_generated < codes_count self
     \<Longrightarrow> sampling_loop self rnd progress pos codes_generated = Some (Inr self)"
  by (subst sampling_loop.simps) simp

lemma sampling_loop_completes:
  assumes "\<forall>c t. progress c t = Shown"
  shows "charset self \<noteq> [] \<Longrightarrow> finite (codes_set self) \<Longrightarrow>
         nat (codes_count self - codes_generated)
           \<le> card ((\<lambda>j. code_at self rnd (pos + j * nat (codes_length self))) ` {..<N}
                    - codes_set self)
         \<Longrightarrow> \<exists>self1. sampling_loop self rnd progress pos codes_generated = Some (Inr self1)"
proof (induction N arbitrary: self pos codes_generated)
  case 0
  then have "\<not> codes_generated < codes_count self"
    by simp
  then show ?case
    by (simp add: sampling_loop_exit)
next
  case (Suc N)
  let ?L = "nat (codes_length self)" and ?S = "codes_set self"
  let ?f = "\<lambda>j. code_at self rnd (pos + j * ?L)"
  let ?f' = "\<lambda>j. code_at self rnd (pos + ?L + j * ?L)"
  show ?case
  proof (cases "codes_generated < codes_count self")
    case False
    then show ?thesis
      by (simp add: sampling_loop_exit)
  next
    case lt: True
    from random_code_nonempty [OF Suc.prems(1)] obtain core
      where core: "random_code (charset self) rnd pos ?L = Inr core"
      by blast
    let ?code = "wrap_code self core"
    have f0: "?f 0 = ?code"
      using core by (simp add: code_at_def)
    have shift: "?f (Suc j) = ?f' j" for j
      by (simp add: add.assoc)
    have "{..<Suc N} = insert 0 (Suc ` {..<N})"
      by (auto simp: lessThan_Suc_eq_insert_0)
    then have img: "?f ` {..<Suc N} = insert ?code (?f' ` {..<N})"
      using f0 shift by (simp add: image_image)
    have none: "update_progress progress (codes_generated + 1) (codes_count self) = None"
      using assms by (simp add: update_progress_def)
    show ?thesis
    proof (cases "?code \<in> ?S")
      case True
      then have "?f ` {..<Suc N} - ?S = ?f' ` {..<N} - ?S"
        unfolding img by auto
      with Suc.prems(3)
      have "nat (codes_count self - codes_generated) \<le> card (?f' ` {..<N} - ?S)"
        by simp
      from Suc.IH [OF Suc.prems(1,2) this] obtain self1
        where "sampling_loop self rnd progress (pos + ?L) codes_generated = Some (Inr self1)"
        by blast
      moreover have "sampling_loop self rnd progress pos codes_generated
                       = sampling_loop self rnd progress (pos + ?L) codes_generated"
        using lt core True by (subst sampling_loop.simps) simp
      ultimately show ?thesis by simp
    next
      case False
      let ?self' = "self\<lparr>codes_set := insert ?code ?S\<rparr>"
      have "?f ` {..<Suc N} - ?S \<subseteq> insert ?code (?f' ` {..<N} - insert ?code ?S)"
        unfolding img by auto
      then have "card (?f ` {..<Suc N} - ?S) \<le> card (insert ?code (?f' ` {..<N} - insert ?code ?S))"
        by (intro card_mono) simp_all
      also have "\<dots> \<le> Suc (card (?f' ` {..<N} - insert ?code ?S))"
        by (rule card_insert_le_m1) simp_all
      finally have "nat (codes_count self - codes_generated)
                      \<le> Suc (card (?f' ` {..<N} - insert ?code ?S))"
        using Suc.prems(3) by simp
      then have "nat (codes_count ?self' - (codes_generated + 1))
                   \<le> card ((\<lambda>j. code_at ?self' rnd (pos + ?L + j * nat (codes_length ?self')))
                             ` {..<N} - codes_set ?self')"
        using lt by simp
      moreover have "charset ?self' \<noteq> []" "finite (codes_set ?self')"
        using Suc.prems(1,2) by simp_all
      ultimately obtain self1
        where "sampling_loop ?self' rnd progress (pos + ?L) (codes_generated + 1) = Some (Inr self1)"
        using Suc.IH [of ?self' "codes_generated + 1" "pos + ?L"] by blast
      moreover have "sampling_loop self rnd progress pos codes_generated
                       = sampling_loop ?self' rnd progress (pos + ?L) (codes_generated + 1)"
        using lt core False none by (subst sampling_loop.simps) simp
      ultimately show ?thesis by simp
    qed
  qed
qed

lemma generate_codes_post:
  assumes "generate_codes self rnd progress = Some y" and "finite (codes_set self)"
  shows "y = Inl ZeroDivisionError \<or> y = Inl OverflowError \<or> y = Inl (ValueError CannotGenerate)
         \<or> loop_post self rnd progress 0 0 y"
proof (cases "check_probability self")
  case (Inl e)
  then have "e = ZeroDivisionError \<or> e = OverflowError"
    by (auto simp: check_probability_def py_truediv_def Let_def split: if_splits)
  with Inl assms show ?thesis
    by (auto simp: generate_codes_def)
next
  case (Inr p)
  with assms show ?thesis
    using sampling_loop_post [of self rnd progress 0 0 y]
    by (auto simp: generate_codes_def split: if_splits)
qed

lemma finite_index_bound:
  assumes "finite A" and "\<forall>x \<in> A. \<exists>j. x = f j"
  shows "\<exists>N :: nat. A \<subseteq> f ` {..<N}"
  using assms
proof (induction A)
  case empty
  show ?case by simp
next
  case (insert x A)
  then obtain N where N: "A \<subseteq> f ` {..<N}"
    by auto
  from insert.prems obtain j where j: "x = f j"
    by auto
  have "insert x A \<subseteq> f ` {..<max N (Suc j)}"
    using N j by (auto simp: less_max_iff_disj)
  then show ?case by blast
qed

text \<open>
  Claim C1. Take an alphabet, a length of at least 1 and a count of at least 1 that is not
  above the number of strings of that length over the alphabet, and a generator whose
  code set is empty. The capacity check passes. Whenever the generation completes, the
  code set holds exactly \<open>codes_count\<close> strings (as members of a set they are pairwise
  distinct), each of them the prefix, a core of exactly \<open>codes_length\<close> characters, all
  of the alphabet, and the suffix. The generation does complete, provided the progress
  line can be shown, as soon as the codes drawn from the random source hold
  \<open>codes_count\<close> distinct ones; and it completes in no other case.
\<close>

theorem generate_codes_unique_codes:
  assumes "1 \<le> codes_length self" and "1 \<le> codes_count self"
    and "codes_count self \<le> int (length (charset self)) ^ nat (codes_length self)"
    and "codes_set self = {}"
  shows "(\<forall>self1. generate_codes self rnd progress = Some (Inr self1) \<longrightarrow>
            card (codes_set self1) = nat (codes_count self) \<and>
            (\<forall>code \<in> codes_set self1.
               \<exists>core. code = chars_of (prefix self) @ core @ chars_of (suffix self) \<and>
                      length core = nat (codes_length self) \<and>
                      set core \<subseteq> set (charset self)) \<and>
            (\<exists>N. nat (codes_count self) \<le> card (drawn_code self rnd ` {..<N})))
         \<and> ((\<forall>current total_count. progress current total_count = Shown) \<and>
            (\<exists>N. nat (codes_count self) \<le> card (drawn_code self rnd ` {..<N}))
            \<longrightarrow> (\<exists>self1. generate_codes self rnd progress = Some (Inr self1)))"
proof (intro conjI allI impI)
  fix self1
  assume gen: "generate_codes self rnd progress = Some (Inr self1)"
  have post: "loop_post self rnd progress 0 0 (Inr self1)"
    using generate_codes_post [OF gen] assms(4) by simp
  then have card: "card (codes_set self1) = nat (codes_count self)"
    and fin: "finite (codes_set self1)"
    and each: "\<forall>code \<in> codes_set self1. code_shape self code \<and>
                 (\<exists>j. code = drawn_code self rnd j)"
    using assms(4) by (simp_all add: loop_post_def drawn_code_def)
  show "card (codes_set self1) = nat (codes_count self)"
    by (rule card)
  show "\<forall>code \<in> codes_set self1.
          \<exists>core. code = chars_of (prefix self) @ core @ chars_of (suffix self) \<and>
                 length core = nat (codes_length self) \<and> set core \<subseteq> set (charset self)"
    using each by (simp add: code_shape_def)
  from finite_index_bound [OF fin, of "drawn_code self rnd"] each
  obtain N where "codes_set self1 \<subseteq> drawn_code self rnd ` {..<N}"
    by blast
  then have "card (codes_set self1) \<le> card (drawn_code self rnd ` {..<N})"
    by (intro card_mono) simp_all
  then show "\<exists>N. nat (codes_count self) \<le> card (drawn_code self rnd ` {..<N})"
    using card by auto
next
  assume h: "(\<forall>current total_count. progress current total_count = Shown) \<and>
             (\<exists>N. nat (codes_count self) \<le> card (drawn_code self rnd ` {..<N}))"
  then obtain N where N: "nat (codes_count self) \<le> card (drawn_code self rnd ` {..<N})"
    by blast
  have ne: "charset self \<noteq> []"
  proof
    assume "charset self = []"
    with assms(1,3) have "codes_count self \<le> 0"
      by (simp add: zero_power)
    with assms(2) show False by simp
  qed
  obtain p where p: "check_probability self = Inr p" "\<not> p > 1"
    using check_probability_passes [OF assms(2,3)] by blast
  have "nat (codes_count self - 0)
          \<le> card ((\<lambda>j. code_at self rnd (0 + j * nat (codes_length self))) ` {..<N}
                   - codes_set self)"
    using N assms(4) by (simp add: drawn_code_def)
  from sampling_loop_completes [OF _ ne _ this, of progress] h assms(4)
  obtain self1 where "sampling_loop self rnd progress 0 0 = Some (Inr self1)"
    by auto
  with p show "\<exists>self1. generate_codes self rnd progress = Some (Inr self1)"
    by (simp add: generate_codes_def)
qed

theorem generate_codes_unique_codes_witness:
  "\<exists>self1. generate_codes ((new_generator 2 2 (Some ''X-'') None)\<lparr>charset := ''ab''\<rparr>)
             (\<lambda>i. i div 4) (\<lambda>current total_count. Shown) = Some (Inr self1)
           \<and> card (codes_set self1) = nat 2"
proof -
  let ?g = "(new_generator 2 2 (Some ''X-'') None)\<lparr>charset := ''ab''\<rparr>"
  let ?rnd = "\<lambda>i :: nat. i div 4"
  let ?progress = "\<lambda>(current :: int) (total_count :: int). Shown"
  have a1: "1 \<le> codes_length ?g" and a2: "1 \<le> codes_count ?g"
    and a3: "codes_count ?g \<le> int (length (charset ?g)) ^ nat (codes_length ?g)"
    and a4: "codes_set ?g = {}"
    by (simp_all add: new_generator_def)
  have d0: "drawn_code ?g ?rnd 0 = ''X-aa''"
    by code_simp
  have d2: "drawn_code ?g ?rnd 2 = ''X-bb''"
    by code_simp
  have "drawn_code ?g ?rnd 0 \<in> drawn_code ?g ?rnd ` {..<3}"
    and "drawn_code ?g ?rnd 2 \<in> drawn_code ?g ?rnd ` {..<3}"
    by simp_all
  then have sub: "{''X-aa'', ''X-bb''} \<subseteq> drawn_code ?g ?rnd ` {..<3}"
    by (simp add: d0 d2)
  have "card {''X-aa'', ''X-bb''} \<le> card (drawn_code ?g ?rnd ` {..<3})"
    by (rule card_mono [OF _ sub]) simp
  moreover have "card {''X-aa'', ''X-bb''} = nat (codes_count ?g)"
    by (simp add: new_generator_def)
  ultimately have "nat (codes_count ?g) \<le> card (drawn_code ?g ?rnd ` {..<3})"
    by simp
  then have b: "(\<forall>current total_count. ?progress current total_count = Shown) \<and>
            (\<exists>N. nat (codes_count ?g) \<le> card (drawn_code ?g ?rnd ` {..<N}))"
    by blast
  have two: "nat (codes_count ?g) = nat 2"
    by (simp add: new_generator_def)
  from generate_codes_unique_codes [OF a1 a2 a3 a4, of ?rnd ?progress] b
  obtain self1 where "generate_codes ?g ?rnd ?progress = Some (Inr self1)"
    and "card (codes_set self1) = nat (codes_count ?g)"
    by blast
  then have "generate_codes ?g ?rnd ?progress = Some (Inr self1)
             \<and> card (codes_set self1) = nat 2"
    by (simp only: two)
  then show ?thesis
    by (rule exI)
qed

lemma finite_code_shape: "finite {code. code_shape self code}"
proof -
  let ?cores = "{core. set core \<subseteq> set (charset self) \<and> length core = nat (codes_length self)}"
  have fin: "finite ?cores"
    by (rule finite_lists_length_eq) simp
  have "{code. code_shape self code}
          = (\<lambda>core. chars_of (prefix self) @ core @ chars_of (suffix self)) ` ?cores"
    by (auto simp: code_shape_def)
  with fin show ?thesis by simp
qed

lemma card_code_shape:
  "card {code. code_shape self code} \<le> card (set (charset self)) ^ nat (codes_length self)"
proof -
  let ?cores = "{core. set core \<subseteq> set (charset self) \<and> length core = nat (codes_length self)}"
  have fin: "finite ?cores"
    by (rule finite_lists_length_eq) simp
  have "{code. code_shape self code}
          = (\<lambda>core. chars_of (prefix self) @ core @ chars_of (suffix self)) ` ?cores"
    by (auto simp: code_shape_def)
  then have "card {code. code_shape self code} \<le> card ?cores"
    using card_image_le [OF fin] by simp
  also have "card ?cores = card (set (charset self)) ^ nat (codes_length self)"
    by (rule card_lists_length_eq) simp
  finally show ?thesis .
qed

lemma generate_codes_count_bound:
  assumes "generate_codes self rnd progress = Some (Inr self1)" and "codes_set self = {}"
  shows "nat (codes_count self) \<le> card (set (charset self)) ^ nat (codes_length self)"
proof -
  have post: "loop_post self rnd progress 0 0 (Inr self1)"
    using generate_codes_post [OF assms(1)] assms(2) by simp
  then have "codes_set self1 \<subseteq> {code. code_shape self code}"
    and "card (codes_set self1) = nat (codes_count self)"
    using assms(2) by (auto simp: loop_post_def)
  then have "nat (codes_count self) \<le> card {code. code_shape self code}"
    using card_mono [OF finite_code_shape, of "codes_set self1" self] by simp
  also note card_code_shape
  finally show ?thesis .
qed

text \<open>
  Claim C2 says that the generation fails with the capacity error whenever the count
  exceeds the number of strings of the given length over the alphabet. The check compares
  the quotient of the two integers, rounded to a double, with 1. For the alphabet \<open>01\<close>,
  the length 53 and the count \<open>2 ^ 53 + 1\<close> the quotient \<open>1 + 2 ^ -53\<close> rounds to
  \<open>1.0\<close>: no capacity error is raised, and the sampling loop, which cannot find more than
  \<open>2 ^ 53\<close> distinct codes, never ends.
\<close>

theorem capacity_check_rounds_to_one:
  "codes_count ((new_generator (2 ^ 53 + 1) 53 None None)\<lparr>charset := ''01''\<rparr>)
     > int (length (charset ((new_generator (2 ^ 53 + 1) 53 None None)\<lparr>charset := ''01''\<rparr>)))
         ^ nat (codes_length ((new_generator (2 ^ 53 + 1) 53 None None)\<lparr>charset := ''01''\<rparr>))
   \<and> check_probability ((new_generator (2 ^ 53 + 1) 53 None None)\<lparr>charset := ''01''\<rparr>) = Inr 1
   \<and> (\<forall>rnd progress.
         generate_codes ((new_generator (2 ^ 53 + 1) 53 None None)\<lparr>charset := ''01''\<rparr>)
           rnd progress \<noteq> Some (Inl (ValueError CannotGenerate)))
   \<and> (\<forall>rnd. generate_codes ((new_generator (2 ^ 53 + 1) 53 None None)\<lparr>charset := ''01''\<rparr>)
              rnd (\<lambda>current total_count. Shown) = None)"
proof -
  let ?g = "(new_generator (2 ^ 53 + 1) 53 None None)\<lparr>charset := ''01''\<rparr>"
  have more: "codes_count ?g > int (length (charset ?g)) ^ nat (codes_length ?g)"
    by (simp add: new_generator_def)
  have prob: "check_probability ?g = Inr 1"
    by code_simp
  have empty: "codes_set ?g = {}"
    by (simp add: new_generator_def)
  have ne: "charset ?g \<noteq> []"
    by simp
  have post: "loop_post ?g rnd progress 0 0 y"
    if "generate_codes ?g rnd progress = Some y" for rnd progress y
  proof -
    from that prob have "sampling_loop ?g rnd progress 0 0 = Some y"
      by (simp add: generate_codes_def)
    from sampling_loop_post [OF this] empty show ?thesis
      by simp
  qed
  have no_result: "generate_codes ?g rnd progress \<noteq> Some (Inr self1)" for rnd progress self1
  proof
    assume "generate_codes ?g rnd progress = Some (Inr self1)"
    from generate_codes_count_bound [OF this empty]
    have bound: "nat (codes_count ?g) \<le> card (set (charset ?g)) ^ nat (codes_length ?g)" .
    have fields: "codes_count ?g = 2 ^ 53 + 1" "charset ?g = ''01''" "codes_length ?g = 53"
      by (simp_all add: new_generator_def)
    have two: "card (set ''01'') = 2"
      by simp
    from bound have "nat (2 ^ 53 + 1) \<le> (2 :: nat) ^ nat 53"
      unfolding fields two .
    then show False
      by simp
  qed
  have no_capacity: "generate_codes ?g rnd progress \<noteq> Some (Inl (ValueError CannotGenerate))"
    for rnd progress
  proof
    assume "generate_codes ?g rnd progress = Some (Inl (ValueError CannotGenerate))"
    from post [OF this] ne
    obtain current where "update_progress progress current (codes_count ?g)
                            = Some (ValueError CannotGenerate)"
      by (auto simp: loop_post_def)
    from update_progress_Some [OF this] show False
      by simp
  qed
  have never: "generate_codes ?g rnd (\<lambda>current total_count. Shown) = None" for rnd
  proof (rule ccontr)
    assume "generate_codes ?g rnd (\<lambda>current total_count. Shown) \<noteq> None"
    then obtain y where y: "generate_codes ?g rnd (\<lambda>current total_count. Shown) = Some y"
      by auto
    show False
    proof (cases y)
      case (Inl e)
      with post [OF y] ne show False
        by (simp add: loop_post_def update_progress_def)
    next
      case (Inr self1)
      with y no_result show False
        by simp
    qed
  qed
  from more prob no_capacity never show ?thesis
    by blast
qed

section \<open>Properties of the constructor\<close>

text \<open>
  Claim C9 says that the constructor fails for every count that is not an integer, as the
  docstring of the constructor does. \<open>int(2.5)\<close> is 2: the constructor accepts the float
  \<open>2.5\<close> as the count 2.
\<close>

theorem init_truncates_float:
  "init (PyFloat (5 / 2)) (PyInt 3) None None = Inr (new_generator 2 3 None None)"
  by code_simp

section \<open>Properties of the writer, of \<open>run\<close> and of \<open>main\<close>\<close>

lemma write_rows_error:
  "write_rows w rows = (Some e, written)
     \<Longrightarrow> e = ValueError CouldNotWrite \<or> e = ValueError EncodeError"
  by (induction rows arbitrary: written)
     (auto split: write_result.splits prod.splits)

lemma save_files_error:
  "save_files self codes_list env num_files idxs fs = (Inl e, fs1)
     \<Longrightarrow> e = ValueError CouldNotWrite \<or> e = ValueError EncodeError \<or> e = LookupError"
proof (induction idxs arbitrary: fs)
  case Nil
  then show ?case by simp
next
  case (Cons i idxs)
  then show ?case
    by (auto simp: Let_def split: if_splits prod.splits option.splits
          dest: write_rows_error)
qed

lemma save_codes_error:
  "save_codes self env fs = (Inl e, fs1)
     \<Longrightarrow> e = OSError \<or> e = ZeroDivisionError \<or> e = ValueError CouldNotWrite
         \<or> e = ValueError EncodeError \<or> e = LookupError"
  by (auto simp: save_codes_def makedirs_def Let_def split: if_splits sum.splits
        dest: save_files_error)

lemma run_failure_leaves_filesystem:
  assumes "run self env fs = Some (Inl e, fs1)"
    and "is_configuration_error e \<or> is_capacity_error e"
  shows "fs1 = fs"
proof (cases "generate_codes self (random_source env) (progress_line env)")
  case None
  with assms(1) show ?thesis by (simp add: run_def)
next
  case (Some y)
  show ?thesis
  proof (cases y)
    case (Inl e')
    with Some assms(1) show ?thesis by (simp add: run_def)
  next
    case (Inr self1)
    with Some assms(1) obtain r where "save_codes self1 env fs = (Inl e, r)"
      by (auto simp: run_def split: prod.splits sum.splits)
    from save_codes_error [OF this] assms(2) show ?thesis
      by auto
  qed
qed

lemma handle_Failed: "handle e = Failed e' \<Longrightarrow> e' = e"
  by (cases e) (simp_all add: handle_def)

lemma main_try_failure_leaves_filesystem:
  assumes "main_try a custom_charset filename env fs = Some (Failed e, fs1)"
    and "is_configuration_error e \<or> is_capacity_error e"
  shows "fs1 = fs"
proof -
  let ?maxlines = "case arg_maxlines a of None \<Rightarrow> PyNone | Some m \<Rightarrow> PyInt m"
  show ?thesis
  proof (cases "init (PyStr (arg_count a)) (PyStr (arg_length a)) (arg_prefix a) (arg_suffix a)")
    case (Inl e0)
    with assms(1) show ?thesis
      by (simp add: main_try_def)
  next
    case cg0: (Inr cg0)
    show ?thesis
    proof (cases "build_character_set cg0 (arg_charset a) (arg_case a) (arg_omit a)
                    (arg_add a) custom_charset")
      case (Inl e1)
      with assms(1) cg0 show ?thesis
        by (simp add: main_try_def)
    next
      case cg1: (Inr cg1)
      show ?thesis
      proof (cases "build_file cg1 filename ?maxlines (arg_encoding a) ''codes''")
        case (Inl e2)
        with assms(1) cg0 cg1 show ?thesis
          by (simp add: main_try_def)
      next
        case cg2: (Inr cg2)
        with assms(1) cg0 cg1 obtain e' where "run cg2 env fs = Some (Inl e', fs1)"
          and "handle e' = Failed e"
          by (auto simp: main_try_def split: option.splits prod.splits sum.splits)
        moreover from this have "e' = e"
          using handle_Failed by blast
        ultimately show ?thesis
          using assms(2) run_failure_leaves_filesystem by blast
      qed
    qed
  qed
qed

text \<open>
  Claim C8. When a run of \<open>main\<close> ends in the handler of line 290 with a configuration
  error or with the capacity error, the file system is as it was before: no file is
  written and no directory is created. The constructor, \<open>build_character_set\<close> and
  \<open>build_file\<close> do not touch the file system, the capacity check of \<open>__generate_codes\<close>
  comes before \<open>__save_codes\<close>, and \<open>__save_codes\<close> raises neither kind of error: its
  exceptions are those of the directory, of \<open>open\<close> and of the rows written.
\<close>

theorem main_failure_leaves_filesystem:
  assumes "main a typed now env fs = Some (Failed e, fs1)"
    and "is_configuration_error e \<or> is_capacity_error e"
  shows "fs1 = fs"
  using assms main_try_failure_leaves_filesystem
  by (auto simp: main_def Let_def split: if_splits option.splits)

theorem main_failure_leaves_filesystem_witness:
  "main \<lparr>arg_count = ''20'', arg_length = ''1'', arg_charset = ''numeric'',
          arg_omit = None, arg_add = None, arg_prefix = None, arg_suffix = None,
          arg_case = ''upper'', arg_filename = Some ''out.csv'', arg_encoding = ''utf-8'',
          arg_maxlines = None\<rparr>
        None []
        \<lparr>random_source = (\<lambda>i. i), progress_line = (\<lambda>current total_count. Shown),
         to_list = (\<lambda>S. []), can_makedirs = (\<lambda>p. True), can_open = (\<lambda>p. True),
         known_encoding = (\<lambda>e. True), write_row = (\<lambda>p e row. Written)\<rparr>
        \<lparr>dirs = {}, files = Map.empty\<rparr>
     = Some (Failed (ValueError CannotGenerate), \<lparr>dirs = {}, files = Map.empty\<rparr>)
   \<and> is_capacity_error (ValueError CannotGenerate)"
proof -
  let ?a = "\<lparr>arg_count = ''20'', arg_length = ''1'', arg_charset = ''numeric'',
          arg_omit = None, arg_add = None, arg_prefix = None, arg_suffix = None,
          arg_case = ''upper'', arg_filename = Some ''out.csv'', arg_encoding = ''utf-8'',
          arg_maxlines = None\<rparr>"
  let ?env = "\<lparr>random_source = (\<lambda>i. i), progress_line = (\<lambda>current total_count. Shown),
         to_list = (\<lambda>S. []), can_makedirs = (\<lambda>p. True), can_open = (\<lambda>p. True),
         known_encoding = (\<lambda>e. True), write_row = (\<lambda>p e row. Written)\<rparr>"
  let ?fs = "\<lparr>dirs = {}, files = Map.empty\<rparr> :: filesystem"
  have low: "lower ''numeric'' = ''numeric''"
    by (simp add: lower_def)
  have cg0: "init (PyStr ''20'') (PyStr ''1'') None None = Inr (new_generator 20 1 None None)"
    by (simp add: init_def int_or_raise_def int_of_str_def int_strip_def int_space_def
          isdecimal_def max_str_digits_def)
  have cg1: "build_character_set (new_generator 20 1 None None) ''numeric'' ''upper''
               None None None
               = Inr ((new_generator 20 1 None None)\<lparr>charset := digits\<rparr>)"
    by (simp add: build_character_set_def select_alpha_def select_base_def apply_omit_def
          apply_add_def digits_def)
  let ?cg2 = "(new_generator 20 1 None None)\<lparr>charset := digits, filename_base := ''out'',
                 filename_ext := ''.csv'', maxlines := 20, encoding := ''utf-8'',
                 save_directory := ''codes''\<rparr>"
  have sp: "splitext ''out.csv'' = (''out'', ''.csv'')"
    by code_simp
  have cg2: "build_file ((new_generator 20 1 None None)\<lparr>charset := digits\<rparr>)
               ''out.csv'' PyNone ''utf-8'' ''codes'' = Inr ?cg2"
    by (simp add: build_file_def sp new_generator_def)
  have quot: "py_truediv 20 10 = Inr 2"
    by code_simp
  have prob: "check_probability ?cg2 = Inr 2"
    by (simp add: check_probability_def new_generator_def digits_def quot)
  have gen: "generate_codes ?cg2 (\<lambda>i. i) (\<lambda>current total_count. Shown)
               = Some (Inl (ValueError CannotGenerate))"
    by (simp add: generate_codes_def prob)
  have m: "main ?a None [] ?env ?fs = Some (Failed (ValueError CannotGenerate), ?fs)"
    by (simp add: main_def main_try_def low cg0 cg1 cg2 run_def gen handle_def)
  have cap: "is_configuration_error (ValueError CannotGenerate)
             \<or> is_capacity_error (ValueError CannotGenerate)"
    by simp
  from main_failure_leaves_filesystem [OF m cap] m show ?thesis
    by simp
qed

lemma str_nat_nonempty: "str_nat n \<noteq> []"
  by (subst str_nat.simps) simp

lemma digit_char_inj:
  assumes "char_of (48 + x :: nat) = char_of (48 + y :: nat)" and "x < 10" and "y < 10"
  shows "x = y"
proof -
  from assms(1) have "of_char (char_of (48 + x)) = (of_char (char_of (48 + y)) :: nat)"
    by simp
  with assms(2,3) show ?thesis
    by simp
qed

lemma str_nat_inj: "str_nat a = str_nat b \<Longrightarrow> a = b"
proof (induction a arbitrary: b rule: str_nat.induct)
  case (1 n)
  show ?case
  proof (cases "n < 10")
    case small: True
    show ?thesis
    proof (cases "b < 10")
      case True
      with small "1.prems" have "char_of (48 + n) = char_of (48 + b)"
        by (simp add: str_nat.simps [of n] str_nat.simps [of b])
      with small True show ?thesis
        by (rule digit_char_inj [rotated 1]) 
    next
      case False
      with small "1.prems" have "[char_of (48 + n)] = str_nat (b div 10) @ [char_of (48 + b mod 10)]"
        by (simp add: str_nat.simps [of n] str_nat.simps [of b])
      then have "str_nat (b div 10) = []"
        by simp
      with str_nat_nonempty show ?thesis
        by blast
    qed
  next
    case big: False
    show ?thesis
    proof (cases "b < 10")
      case True
      with big "1.prems" have "str_nat (n div 10) @ [char_of (48 + n mod 10)] = [char_of (48 + b)]"
        by (simp add: str_nat.simps [of n] str_nat.simps [of b])
      then have "str_nat (n div 10) = []"
        by simp
      with str_nat_nonempty show ?thesis
        by blast
    next
      case False
      with big "1.prems"
      have "str_nat (n div 10) @ [char_of (48 + n mod 10)]
              = str_nat (b div 10) @ [char_of (48 + b mod 10)]"
        by (simp add: str_nat.simps [of n] str_nat.simps [of b])
      then have hi: "str_nat (n div 10) = str_nat (b div 10)"
        and lo: "char_of (48 + n mod 10) = char_of (48 + b mod 10)"
        by simp_all
      from "1.IH" [OF big hi] have "n div 10 = b div 10" .
      moreover from lo have "n mod 10 = b mod 10"
        by (rule digit_char_inj) simp_all
      ultimately show ?thesis
        by (metis div_mult_mod_eq)
    qed
  qed
qed

lemma str_int_inj: "0 \<le> i \<Longrightarrow> 0 \<le> j \<Longrightarrow> str_int i = str_int j \<Longrightarrow> i = j"
  using str_nat_inj [of "nat i" "nat j"] by (simp add: str_int_def)

lemma path_join_inj:
  assumes "path_join d (b @ x) = path_join d (b @ y)" and "b \<noteq> []"
  shows "x = y"
proof -
  have hd: "hd (b @ x) = hd b" "hd (b @ y) = hd b"
    using assms(2) by simp_all
  show ?thesis
  proof (cases "hd b = CHR ''/''")
    case True
    with assms hd show ?thesis
      by (simp add: path_join_def)
  next
    case False
    with assms hd show ?thesis
      by (simp add: path_join_def split: if_splits)
  qed
qed

lemma file_path_inj:
  assumes "file_path self num_files i = file_path self num_files j"
    and "1 < num_files" and "0 \<le> i" and "0 \<le> j"
  shows "i = j"
proof -
  let ?b = "filename_base self @ ''_''"
  from assms(1,2)
  have "path_join (save_directory self) (?b @ str_int (i + 1) @ filename_ext self)
          = path_join (save_directory self) (?b @ str_int (j + 1) @ filename_ext self)"
    by (simp add: file_path_def output_file_name_def)
  then have "str_int (i + 1) @ filename_ext self = str_int (j + 1) @ filename_ext self"
    by (rule path_join_inj) simp
  then have "str_int (i + 1) = str_int (j + 1)"
    by simp
  with assms(3,4) show ?thesis
    using str_int_inj [of "i + 1" "j + 1"] by simp
qed

lemma file_path_inj_on: "inj_on (file_path self num_files) {0..<num_files}"
proof (rule inj_onI)
  fix i j
  assume i: "i \<in> {0..<num_files}" and j: "j \<in> {0..<num_files}"
    and eq: "file_path self num_files i = file_path self num_files j"
  show "i = j"
  proof (cases "1 < num_files")
    case True
    with eq i j show ?thesis
      by (intro file_path_inj [of self num_files]) simp_all
  next
    case False
    with i j show ?thesis by simp
  qed
qed

lemma num_files_ceiling:
  assumes "1 \<le> m"
  shows "(int n - 1) div m + 1 = \<lceil>real n / real_of_int m\<rceil>"
proof -
  have "\<lceil>real n / real_of_int m\<rceil> = - (- int n div m)"
    using ceiling_divide_eq_div [of "int n" m] by simp
  also have "- int n div m = - ((int n - 1) div m) - 1"
  proof (rule int_div_pos_eq)
    show "- int n = m * (- ((int n - 1) div m) - 1) + (m - 1 - (int n - 1) mod m)"
      by (simp add: algebra_simps)
    have "0 \<le> (int n - 1) mod m" "(int n - 1) mod m < m"
      using assms by simp_all
    then show "0 \<le> m - 1 - (int n - 1) mod m" "m - 1 - (int n - 1) mod m < m"
      by linarith+
  qed
  finally show ?thesis by simp
qed

lemma write_rows_all: "\<forall>row. w row = Written \<Longrightarrow> write_rows w rows = (None, rows)"
  by (induction rows) simp_all

lemma save_files_step:
  assumes "\<forall>p. can_open env p" and "known_encoding env (encoding self)"
    and "\<forall>p row. write_row env p (encoding self) row = Written"
  shows "save_files self xs env nf (i # rest) fs =
           save_files self xs env nf rest
             (fs\<lparr>files := (files fs)(file_path self nf i \<mapsto>
                    map str_split (slice xs (i * maxlines self) ((i + 1) * maxlines self)))\<rparr>)"
  using assms by (simp add: Let_def write_rows_all)

lemma save_files_ok:
  assumes "\<forall>p. can_open env p" and "known_encoding env (encoding self)"
    and "\<forall>p row. write_row env p (encoding self) row = Written"
  shows "fst (save_files self xs env nf idxs fs) = Inr () \<and>
         dirs (snd (save_files self xs env nf idxs fs)) = dirs fs \<and>
         (\<forall>p. p \<notin> file_path self nf ` set idxs \<longrightarrow>
              files (snd (save_files self xs env nf idxs fs)) p = files fs p)"
proof (induction idxs arbitrary: fs)
  case Nil
  show ?case by simp
next
  case (Cons i rest)
  show ?case
    unfolding save_files_step [OF assms] using Cons.IH by simp
qed

lemma save_files_written:
  assumes "\<forall>p. can_open env p" and "known_encoding env (encoding self)"
    and "\<forall>p row. write_row env p (encoding self) row = Written"
  shows "distinct idxs \<Longrightarrow> inj_on (file_path self nf) (set idxs) \<Longrightarrow> i \<in> set idxs \<Longrightarrow>
         files (snd (save_files self xs env nf idxs fs)) (file_path self nf i)
           = Some (map str_split (slice xs (i * maxlines self) ((i + 1) * maxlines self)))"
proof (induction idxs arbitrary: fs)
  case Nil
  then show ?case by simp
next
  case (Cons j rest)
  let ?fs' = "fs\<lparr>files := (files fs)(file_path self nf j \<mapsto>
                    map str_split (slice xs (j * maxlines self) ((j + 1) * maxlines self)))\<rparr>"
  show ?case
  proof (cases "i = j")
    case True
    from Cons.prems(1,2) have "file_path self nf j \<notin> file_path self nf ` set rest"
      by (auto simp: inj_on_def)
    with save_files_ok [OF assms, of xs nf rest ?fs']
    have "files (snd (save_files self xs env nf rest ?fs')) (file_path self nf j)
            = files ?fs' (file_path self nf j)"
      by blast
    with True show ?thesis
      unfolding save_files_step [OF assms] by simp
  next
    case False
    with Cons.prems have "distinct rest" "inj_on (file_path self nf) (set rest)" "i \<in> set rest"
      by (simp_all add: inj_on_def)
    from Cons.IH [OF this] show ?thesis
      unfolding save_files_step [OF assms] .
  qed
qed

lemma length_slice:
  "0 \<le> a \<Longrightarrow> length (slice xs a b) = min (nat b) (length xs) - nat a"
  by (simp add: slice_def)

lemma sum_slices:
  "(\<Sum>i<k. min ((i + 1) * M) n - i * M) = min (k * M) (n :: nat)"
  by (induction k) (auto simp: min_def)

lemma sum_slice_lengths:
  assumes "1 \<le> m" and "0 \<le> nf" and "int (length xs) \<le> nf * m"
  shows "(\<Sum>i = 0..<nf. length (slice xs (i * m) ((i + 1) * m))) = length xs"
proof -
  let ?M = "nat m" and ?k = "nat nf"
  have "int ` {0..<?k} = {int 0..<int ?k}"
    by (rule image_int_atLeastLessThan)
  then have set: "{0..<nf} = int ` {..<?k}"
    using assms(2) by (simp add: atLeast0LessThan)
  have "(\<Sum>i = 0..<nf. length (slice xs (i * m) ((i + 1) * m)))
          = (\<Sum>i<?k. length (slice xs (int i * m) ((int i + 1) * m)))"
    unfolding set by (subst sum.reindex) (simp_all add: inj_on_def)
  also have "\<dots> = (\<Sum>i<?k. min ((i + 1) * ?M) (length xs) - i * ?M)"
  proof (rule sum.cong)
    fix i
    have "nat ((int i + 1) * m) = (i + 1) * ?M" "nat (int i * m) = i * ?M"
      using assms(1) by (simp_all add: nat_mult_distrib nat_add_distrib)
    then show "length (slice xs (int i * m) ((int i + 1) * m))
                 = min ((i + 1) * ?M) (length xs) - i * ?M"
      using assms(1) by (simp add: length_slice)
  qed simp
  also have "\<dots> = min (?k * ?M) (length xs)"
    by (rule sum_slices)
  also have "int (?k * ?M) = nf * m"
    using assms(1,2) by simp
  then have "length xs \<le> ?k * ?M"
    using assms(3) by linarith
  then have "min (?k * ?M) (length xs) = length xs"
    by simp
  finally show ?thesis .
qed

lemma num_files_bounds:
  assumes "1 \<le> m"
  shows "0 \<le> (int n - 1) div m + 1" and "int n \<le> ((int n - 1) div m + 1) * m"
proof -
  have "- 1 div m \<le> (int n - 1) div m"
    using assms by (intro zdiv_mono1) simp_all
  moreover have "- 1 div m = - 1"
    using assms by (simp add: div_eq_minus1)
  ultimately show "0 \<le> (int n - 1) div m + 1"
    by simp
  have "int n - 1 = m * ((int n - 1) div m) + (int n - 1) mod m"
    by simp
  moreover have "(int n - 1) mod m < m"
    using assms by simp
  ultimately have "int n - 1 < m * ((int n - 1) div m) + m"
    by linarith
  then show "int n \<le> ((int n - 1) div m + 1) * m"
    by (simp add: algebra_simps)
qed

text \<open>
  Claim C7. Let the code set have \<open>n\<close> codes, listed in some order, and let
  \<open>maxlines\<close> be \<open>m \<ge> 1\<close>; let the directory exist or be creatable and every file be
  opened and written without failure. Then the writer succeeds and writes exactly
  \<open>\<lceil>n / m\<rceil>\<close> files, with pairwise different paths; each of them holds at most \<open>m\<close>
  rows; no other file is changed; the rows of all files together are \<open>n\<close>; and the file
  with index \<open>i\<close> (from 0) is named by the base, an underscore, the number \<open>i + 1\<close> and
  the extension when there is more than one file, and by the base and the extension when
  there is one.
\<close>

theorem save_codes_files:
  assumes m: "1 \<le> maxlines self"
    and enum: "distinct (to_list env (codes_set self))"
              "set (to_list env (codes_set self)) = codes_set self"
    and dir: "path_exists fs (save_directory self) \<or>
              (save_directory self \<noteq> [] \<and> can_makedirs env (save_directory self))"
    and ok: "\<forall>p. can_open env p" "known_encoding env (encoding self)"
            "\<forall>p row. write_row env p (encoding self) row = Written"
    and nf: "num_files = \<lceil>real (card (codes_set self)) / real_of_int (maxlines self)\<rceil>"
  shows "\<exists>fs1. save_codes self env fs = (Inr (), fs1) \<and>
           card (file_path self num_files ` {0..<num_files}) = nat num_files \<and>
           (\<forall>i \<in> {0..<num_files}.
              \<exists>rows. files fs1 (file_path self num_files i) = Some rows \<and>
                     int (length rows) \<le> maxlines self) \<and>
           (\<forall>p. p \<notin> file_path self num_files ` {0..<num_files} \<longrightarrow> files fs1 p = files fs p) \<and>
           (\<Sum>i = 0..<num_files. length (the (files fs1 (file_path self num_files i))))
             = card (codes_set self) \<and>
           (\<forall>i \<in> {0..<num_files}.
              file_path self num_files i =
                path_join (save_directory self)
                  (if 1 < num_files
                   then filename_base self @ ''_'' @ str_int (i + 1) @ filename_ext self
                   else filename_base self @ filename_ext self))"
proof -
  let ?xs = "to_list env (codes_set self)" and ?m = "maxlines self"
  let ?rows = "\<lambda>i. map str_split (slice ?xs (i * ?m) ((i + 1) * ?m))"
  have n: "length ?xs = card (codes_set self)"
    using enum distinct_card [of ?xs] by simp
  have nf_eq: "(int (length ?xs) - 1) div ?m + 1 = num_files"
    unfolding nf n [symmetric] using m by (rule num_files_ceiling)
  have nf0: "0 \<le> num_files" and cover: "int (length ?xs) \<le> num_files * ?m"
    using num_files_bounds [OF m, of "length ?xs"] nf_eq by simp_all
  define fs0 where "fs0 = (if \<not> path_exists fs (save_directory self)
                           then fs\<lparr>dirs := insert (save_directory self) (dirs fs)\<rparr> else fs)"
  have fs0: "(if \<not> path_exists fs (save_directory self)
            then makedirs env fs (save_directory self) else Inr fs) = Inr fs0"
    using dir by (auto simp: makedirs_def fs0_def)
  have files0: "files fs0 = files fs"
    by (simp add: fs0_def)
  let ?res = "save_files self ?xs env num_files [0..num_files - 1] fs0"
  have idx: "set [0..num_files - 1] = {0..<num_files}"
    by auto
  have "maxlines self \<noteq> 0"
    using m by simp
  then have save: "save_codes self env fs = ?res"
    unfolding save_codes_def Let_def fs0 nf_eq by simp
  from save_files_ok [OF ok, of ?xs num_files "[0..num_files - 1]" fs0]
  have res_ok: "fst ?res = Inr ()"
    and others: "\<forall>p. p \<notin> file_path self num_files ` {0..<num_files}
                   \<longrightarrow> files (snd ?res) p = files fs p"
    unfolding idx files0 by blast+
  have inj: "inj_on (file_path self num_files) {0..<num_files}"
    by (rule file_path_inj_on)
  have written: "files (snd ?res) (file_path self num_files i) = Some (?rows i)"
    if "i \<in> {0..<num_files}" for i
    using save_files_written [OF ok, of "[0..num_files - 1]" num_files i ?xs fs0] inj that
    unfolding idx by simp
  have c1: "card (file_path self num_files ` {0..<num_files}) = nat num_files"
    using card_image [OF inj] by simp
  have c2: "\<forall>i \<in> {0..<num_files}.
              \<exists>rows. files (snd ?res) (file_path self num_files i) = Some rows \<and>
                     int (length rows) \<le> ?m"
  proof
    fix i assume i: "i \<in> {0..<num_files}"
    have "length (?rows i) = min (nat ((i + 1) * ?m)) (length ?xs) - nat (i * ?m)"
      using i m by (simp add: length_slice)
    also have "\<dots> \<le> nat ((i + 1) * ?m) - nat (i * ?m)"
      by simp
    also have "\<dots> = nat ?m"
    proof -
      have "0 \<le> i * ?m"
        using i m by simp
      then have "nat ((i + 1) * ?m) = nat (i * ?m) + nat ?m"
        using m by (simp add: algebra_simps nat_add_distrib)
      then show ?thesis by simp
    qed
    finally have "int (length (?rows i)) \<le> ?m"
      using m by simp
    with written [OF i] show "\<exists>rows. files (snd ?res) (file_path self num_files i) = Some rows \<and>
                     int (length rows) \<le> ?m"
      by blast
  qed
  have "(\<Sum>i = 0..<num_files. length (the (files (snd ?res) (file_path self num_files i))))
          = (\<Sum>i = 0..<num_files. length (slice ?xs (i * ?m) ((i + 1) * ?m)))"
    by (rule sum.cong) (simp_all add: written)
  also have "\<dots> = length ?xs"
    using m nf0 cover by (rule sum_slice_lengths)
  finally have c4: "(\<Sum>i = 0..<num_files. length (the (files (snd ?res) (file_path self num_files i))))
          = card (codes_set self)"
    using n by simp
  have c5: "\<forall>i \<in> {0..<num_files}.
              file_path self num_files i =
                path_join (save_directory self)
                  (if 1 < num_files
                   then filename_base self @ ''_'' @ str_int (i + 1) @ filename_ext self
                   else filename_base self @ filename_ext self)"
    by (simp add: file_path_def output_file_name_def)
  have "save_codes self env fs = (Inr (), snd ?res)"
    using save res_ok by (metis prod.collapse)
  with c1 c2 others c4 c5 show ?thesis
    by blast
qed

theorem save_codes_files_witness:
  "\<exists>fs1. save_codes
            ((new_generator 3 2 None None)
               \<lparr>codes_set := {''11'', ''22'', ''33''}, filename_base := ''out'',
                filename_ext := ''.csv'', maxlines := 2, encoding := ''utf-8'',
                save_directory := ''codes''\<rparr>)
            \<lparr>random_source = (\<lambda>i. i), progress_line = (\<lambda>current total_count. Shown),
             to_list = (\<lambda>S. [''11'', ''22'', ''33'']), can_makedirs = (\<lambda>p. True),
             can_open = (\<lambda>p. True), known_encoding = (\<lambda>e. True),
             write_row = (\<lambda>p e row. Written)\<rparr>
            \<lparr>dirs = {}, files = Map.empty\<rparr> = (Inr (), fs1)
         \<and> card (file_path
                  ((new_generator 3 2 None None)
                     \<lparr>codes_set := {''11'', ''22'', ''33''}, filename_base := ''out'',
                      filename_ext := ''.csv'', maxlines := 2, encoding := ''utf-8'',
                      save_directory := ''codes''\<rparr>) 2 ` {0..<2}) = nat 2"
proof -
  let ?g = "(new_generator 3 2 None None)
               \<lparr>codes_set := {''11'', ''22'', ''33''}, filename_base := ''out'',
                filename_ext := ''.csv'', maxlines := 2, encoding := ''utf-8'',
                save_directory := ''codes''\<rparr>"
  let ?env = "\<lparr>random_source = (\<lambda>i. i), progress_line = (\<lambda>current total_count. Shown),
             to_list = (\<lambda>S. [''11'', ''22'', ''33'']), can_makedirs = (\<lambda>p. True),
             can_open = (\<lambda>p. True), known_encoding = (\<lambda>e. True),
             write_row = (\<lambda>p e row. Written)\<rparr>"
  let ?fs = "\<lparr>dirs = {}, files = Map.empty\<rparr> :: filesystem"
  have m: "1 \<le> maxlines ?g"
    by simp
  have enum: "distinct (to_list ?env (codes_set ?g))"
    "set (to_list ?env (codes_set ?g)) = codes_set ?g"
    by simp_all
  have dir: "path_exists ?fs (save_directory ?g) \<or>
              (save_directory ?g \<noteq> [] \<and> can_makedirs ?env (save_directory ?g))"
    by simp
  have ok: "\<forall>p. can_open ?env p" "known_encoding ?env (encoding ?g)"
    "\<forall>p row. write_row ?env p (encoding ?g) row = Written"
    by simp_all
  have "card (codes_set ?g) = 3"
    by simp
  then have nf: "2 = \<lceil>real (card (codes_set ?g)) / real_of_int (maxlines ?g)\<rceil>"
    by simp
  from save_codes_files [OF m enum dir ok nf] show ?thesis
    by blast
qed

lemma split_from_no_space:
  "\<forall>c \<in> set s. \<not> isspace c
     \<Longrightarrow> split_from w s = (if rev w @ s = [] then [] else [rev w @ s])"
  by (induction s arbitrary: w) simp_all

lemma str_split_single:
  "s \<noteq> [] \<Longrightarrow> \<forall>c \<in> set s. \<not> isspace c \<Longrightarrow> str_split s = [s]"
  by (simp add: str_split_def split_from_no_space)

text \<open>
  Claim C4 says that each row of an output file holds exactly one generated code, also
  when the code contains white space. The row of a code is \<open>code.split()\<close> (line 219),
  which is the code itself only for a code without white space (lemma
  \<open>str_split_single\<close>). With the prefix \<open>A B\<close> the code \<open>A B5\<close> is generated and the
  run succeeds, but the row written for it has the two fields \<open>A\<close> and \<open>B5\<close>.
\<close>

theorem main_splits_code_with_space:
  "main \<lparr>arg_count = ''1'', arg_length = ''1'', arg_charset = ''numeric'',
          arg_omit = None, arg_add = None, arg_prefix = Some ''A B'', arg_suffix = None,
          arg_case = ''upper'', arg_filename = Some ''out.csv'', arg_encoding = ''utf-8'',
          arg_maxlines = None\<rparr>
        None []
        \<lparr>random_source = (\<lambda>i. 5), progress_line = (\<lambda>current total_count. Shown),
         to_list = (\<lambda>S. [''A B5'']), can_makedirs = (\<lambda>p. True), can_open = (\<lambda>p. True),
         known_encoding = (\<lambda>e. True), write_row = (\<lambda>p e row. Written)\<rparr>
        \<lparr>dirs = {}, files = Map.empty\<rparr>
     = Some (Saved ((new_generator 1 1 (Some ''A B'') None)
                      \<lparr>charset := digits, filename_base := ''out'', filename_ext := ''.csv'',
                       maxlines := 1, encoding := ''utf-8'', save_directory := ''codes'',
                       codes_set := {''A B5''}\<rparr>),
             \<lparr>dirs = {''codes''},
              files = [''codes/out.csv'' \<mapsto> [[''A'', ''B5'']]]\<rparr>)"
proof -
  let ?a = "\<lparr>arg_count = ''1'', arg_length = ''1'', arg_charset = ''numeric'',
          arg_omit = None, arg_add = None, arg_prefix = Some ''A B'', arg_suffix = None,
          arg_case = ''upper'', arg_filename = Some ''out.csv'', arg_encoding = ''utf-8'',
          arg_maxlines = None\<rparr>"
  let ?env = "\<lparr>random_source = (\<lambda>i. 5), progress_line = (\<lambda>current total_count. Shown),
         to_list = (\<lambda>S. [''A B5'']), can_makedirs = (\<lambda>p. True), can_open = (\<lambda>p. True),
         known_encoding = (\<lambda>e. True), write_row = (\<lambda>p e row. Written)\<rparr>"
  let ?fs = "\<lparr>dirs = {}, files = Map.empty\<rparr> :: filesystem"
  let ?cg0 = "new_generator 1 1 (Some ''A B'') None"
  let ?cg2 = "?cg0\<lparr>charset := digits, filename_base := ''out'', filename_ext := ''.csv'',
                   maxlines := 1, encoding := ''utf-8'', save_directory := ''codes''\<rparr>"
  let ?cg3 = "?cg2\<lparr>codes_set := {''A B5''}\<rparr>"
  have low: "lower ''numeric'' = ''numeric''"
    by (simp add: lower_def)
  have cg0: "init (PyStr ''1'') (PyStr ''1'') (Some ''A B'') None = Inr ?cg0"
    by (simp add: init_def int_or_raise_def int_of_str_def int_strip_def int_space_def
          isdecimal_def max_str_digits_def)
  have cg1: "build_character_set ?cg0 ''numeric'' ''upper'' None None None
               = Inr (?cg0\<lparr>charset := digits\<rparr>)"
    by (simp add: build_character_set_def select_alpha_def select_base_def apply_omit_def
          apply_add_def digits_def)
  have sp: "splitext ''out.csv'' = (''out'', ''.csv'')"
    by code_simp
  have cg2: "build_file (?cg0\<lparr>charset := digits\<rparr>) ''out.csv'' PyNone ''utf-8'' ''codes''
               = Inr ?cg2"
    by (simp add: build_file_def sp new_generator_def)
  have gen: "generate_codes ?cg2 (\<lambda>i. 5) (\<lambda>current total_count. Shown) = Some (Inr ?cg3)"
    by code_simp
  have split: "str_split ''A B5'' = [''A'', ''B5'']"
    by (simp add: str_split_def isspace_def)
  have save: "save_codes ?cg3 ?env ?fs
                = (Inr (), \<lparr>dirs = {''codes''},
                            files = [''codes/out.csv'' \<mapsto> [[''A'', ''B5'']]]\<rparr>)"
    by (simp add: save_codes_def path_exists_def makedirs_def new_generator_def Let_def
          file_path_def output_file_name_def path_join_def slice_def split)
  show ?thesis
    by (simp add: main_def main_try_def low cg0 cg1 cg2 run_def gen save)
qed


end
